theory Spec2Isabelle
  imports Main "HOL-Library.Word" "HOL-Library.AList" "HOL-Library.Char_ord"
    "HOL-Library.List_Lexorder" "HOL-Library.Sublist"
begin

section \<open>FileXTransfer: reconciliation and copy engine (backend.py, main.py)\<close>

text \<open>
  The development embeds the seven functions of the repository
  (\<^verbatim>\<open>_normalize_rel\<close>, \<^verbatim>\<open>list_files_recursive\<close>, \<^verbatim>\<open>compare\<close>,
  \<^verbatim>\<open>ensure_parent_dir\<close>, \<^verbatim>\<open>copy_file\<close>, \<^verbatim>\<open>copy_missing_files\<close> and
  \<^verbatim>\<open>CopyWorker.run\<close>) over an explicit model of the file system they act on.
  Python exceptions are values of type \<open>exc\<close>; a function that may raise and mutates the
  file system returns \<open>exc option \<times> world\<close> (\<open>None\<close>: it returned normally).
\<close>

subsection \<open>Path strings (posixpath)\<close>

text \<open>
  \<^verbatim>\<open>def _normalize_rel(path): return path.replace("\\", "/")\<close>.
  The backslash is the character with code 0x5C.
\<close>

definition normalize_rel :: "string \<Rightarrow> string" where
  "normalize_rel path = map (\<lambda>c. if c = CHR 0x5C then CHR ''/'' else c) path"

text \<open>\<^verbatim>\<open>p.split('/')\<close>: never empty, \<open>''''\<close> splits into \<open>['''']\<close>.\<close>

fun split_sep :: "string \<Rightarrow> string list" where
  "split_sep [] = [[]]"
| "split_sep (c # cs) =
     (if c = CHR ''/'' then [] # split_sep cs
      else (c # hd (split_sep cs)) # tl (split_sep cs))"

text \<open>
  \<^verbatim>\<open>posixpath.join(a, b)\<close>: an absolute \<open>b\<close> replaces \<open>a\<close>; otherwise \<open>b\<close> is appended,
  after a separator unless \<open>a\<close> is empty or already ends with one.
\<close>

definition os_path_join :: "string \<Rightarrow> string \<Rightarrow> string" where
  "os_path_join a b =
     (if b \<noteq> [] \<and> hd b = CHR ''/'' then b
      else if a = [] \<or> last a = CHR ''/'' then a @ b
      else a @ ''/'' @ b)"

text \<open>
  \<^verbatim>\<open>posixpath.dirname(p)\<close>: everything up to and including the last separator, with
  trailing separators stripped unless the head consists of separators only.
\<close>

definition os_path_dirname :: "string \<Rightarrow> string" where
  "os_path_dirname p =
     (let head = rev (dropWhile (\<lambda>c. c \<noteq> CHR ''/'') (rev p))
      in if head \<noteq> [] \<and> head \<noteq> replicate (length head) CHR ''/''
         then rev (dropWhile (\<lambda>c. c = CHR ''/'') (rev head))
         else head)"

text \<open>\<^verbatim>\<open>posixpath.basename(p)\<close>: what follows the last separator.\<close>

definition os_path_basename :: "string \<Rightarrow> string" where
  "os_path_basename p = rev (takeWhile (\<lambda>c. c \<noteq> CHR ''/'') (rev p))"

subsection \<open>Exceptions\<close>

datatype exc =
    FileNotFoundError string
  | NotADirectoryError string
  | IsADirectoryError string
  | FileExistsError string
  | PermissionError string
  | OSError string
  | SameFileError string string
  | ValueError string

fun str_exc :: "exc \<Rightarrow> string" where
  "str_exc (FileNotFoundError p) = ''[Errno 2] No such file or directory: '' @ [CHR 0x27] @ p @ [CHR 0x27]"
| "str_exc (NotADirectoryError p) = ''[Errno 20] Not a directory: '' @ [CHR 0x27] @ p @ [CHR 0x27]"
| "str_exc (IsADirectoryError p) = ''[Errno 21] Is a directory: '' @ [CHR 0x27] @ p @ [CHR 0x27]"
| "str_exc (FileExistsError p) = ''[Errno 17] File exists: '' @ [CHR 0x27] @ p @ [CHR 0x27]"
| "str_exc (PermissionError p) = ''[Errno 13] Permission denied: '' @ [CHR 0x27] @ p @ [CHR 0x27]"
| "str_exc (OSError m) = m"
| "str_exc (SameFileError a b) =
     [CHR 0x27] @ a @ [CHR 0x27] @ '' and '' @ [CHR 0x27] @ b @ [CHR 0x27] @ '' are the same file''"
| "str_exc (ValueError m) = m"

subsection \<open>File system\<close>

text \<open>
  The file system is a tree of regular files (content, access and modification time) and
  directories (association lists from entry names to nodes). There are no links and no
  special files, so that a location, the list of entry names from the root, names at most
  one node. \<open>faults\<close> is an oracle for the failures the tree does not explain
  (permissions, input/output errors): where it gives an exception for an operation at a
  location, the operation raises it. \<open>resolve\<close> turns a path string into a location
  lexically, as \<^verbatim>\<open>os.path.abspath\<close> does; \<^verbatim>\<open>os.path.exists\<close> and
  \<^verbatim>\<open>os.path.isdir\<close> are lookups in the tree.
\<close>

type_synonym bytes = "8 word list"
type_synonym name = string
type_synonym stamp = "nat \<times> nat"

datatype node = File bytes stamp | Dir "(name \<times> node) list"

datatype sysop = OpScandir | OpMkdir | OpOpenRead | OpOpenWrite | OpRead | OpWrite | OpStat | OpUtime

record world =
  tree :: node
  cwd :: "name list"
  clock :: nat
  faults :: "sysop \<Rightarrow> name list \<Rightarrow> exc option"

fun is_dir :: "node \<Rightarrow> bool" where
  "is_dir (Dir _) = True"
| "is_dir (File _ _) = False"

fun lookup :: "node \<Rightarrow> name list \<Rightarrow> node option" where
  "lookup n [] = Some n"
| "lookup (File _ _) (c # cs) = None"
| "lookup (Dir es) (c # cs) = (case map_of es c of None \<Rightarrow> None | Some m \<Rightarrow> lookup m cs)"

fun put :: "node \<Rightarrow> name list \<Rightarrow> node \<Rightarrow> node" where
  "put n [] m = m"
| "put (File d t) (c # cs) m = File d t"
| "put (Dir es) (c # cs) m =
     (case map_of es c of
        None \<Rightarrow> if cs = [] then Dir (AList.update c m es) else Dir es
      | Some k \<Rightarrow> Dir (AList.update c (put k cs m) es))"

fun norm_step :: "name list \<Rightarrow> string \<Rightarrow> name list" where
  "norm_step cur c =
     (if c = [] \<or> c = ''.'' then cur else if c = ''..'' then butlast cur else cur @ [c])"

definition resolve :: "world \<Rightarrow> string \<Rightarrow> name list" where
  "resolve w p =
     foldl norm_step (if p \<noteq> [] \<and> hd p = CHR ''/'' then [] else cwd w) (split_sep p)"

definition blocked :: "node \<Rightarrow> name list \<Rightarrow> bool" where
  "blocked t cs = list_ex (\<lambda>k. case lookup t (take k cs) of Some (File _ _) \<Rightarrow> True | _ \<Rightarrow> False) [0..<length cs]"

definition node_at :: "world \<Rightarrow> string \<Rightarrow> exc + node" where
  "node_at w p =
     (if p = [] then Inl (FileNotFoundError p)
      else case lookup (tree w) (resolve w p) of
        Some n \<Rightarrow> Inr n
      | None \<Rightarrow> if blocked (tree w) (resolve w p) then Inl (NotADirectoryError p)
                else Inl (FileNotFoundError p))"

definition os_path_exists :: "world \<Rightarrow> string \<Rightarrow> bool" where
  "os_path_exists w p = (case node_at w p of Inl _ \<Rightarrow> False | Inr _ \<Rightarrow> True)"

definition os_path_isdir :: "world \<Rightarrow> string \<Rightarrow> bool" where
  "os_path_isdir w p = (case node_at w p of Inr (Dir _) \<Rightarrow> True | _ \<Rightarrow> False)"

subsection \<open>Directory walk and indexing\<close>

text \<open>
  \<^verbatim>\<open>os.walk(top)\<close> with its defaults (top-down, \<^verbatim>\<open>onerror=None\<close>): a directory whose
  scan fails, the root included, yields nothing and is not descended into; otherwise it
  yields the triple of its path string, the names of its subdirectories and the names of
  its other entries, followed by the walks of the subdirectories.
\<close>

fun walk_dir :: "world \<Rightarrow> string \<Rightarrow> name list \<Rightarrow> node \<Rightarrow> (string \<times> name list \<times> name list) list" where
  "walk_dir w topdir loc (File d t) = []"
| "walk_dir w topdir loc (Dir es) =
     (if faults w OpScandir loc \<noteq> None then []
      else (topdir, map fst (filter (\<lambda>e. is_dir (snd e)) es),
                 map fst (filter (\<lambda>e. \<not> is_dir (snd e)) es))
           # concat (map (\<lambda>e. walk_dir w (os_path_join topdir (fst e)) (loc @ [fst e]) (snd e))
                         (filter (\<lambda>e. is_dir (snd e)) es)))"

definition os_walk :: "world \<Rightarrow> string \<Rightarrow> (string \<times> name list \<times> name list) list" where
  "os_walk w topdir =
     (case node_at w topdir of Inl e \<Rightarrow> [] | Inr n \<Rightarrow> walk_dir w topdir (resolve w topdir) n)"

fun common_prefix :: "name list \<Rightarrow> name list \<Rightarrow> name list" where
  "common_prefix (x # xs) (y # ys) = (if x = y then x # common_prefix xs ys else [])"
| "common_prefix _ _ = []"

fun join_all :: "string list \<Rightarrow> string" where
  "join_all [] = []"
| "join_all [c] = c"
| "join_all (c # d # cs) = c @ ''/'' @ join_all (d # cs)"

definition os_path_relpath :: "world \<Rightarrow> string \<Rightarrow> string \<Rightarrow> exc + string" where
  "os_path_relpath w path start =
     (if path = [] then Inl (ValueError ''no path specified'')
      else
        let start_list = resolve w start;
            path_list = resolve w path;
            i = length (common_prefix start_list path_list);
            rel_list = replicate (length start_list - i) ''..'' @ drop i path_list
        in if rel_list = [] then Inr ''.'' else Inr (join_all rel_list))"

fun index_files :: "world \<Rightarrow> string \<Rightarrow> string \<Rightarrow> name list \<Rightarrow> string set \<Rightarrow> exc + string set" where
  "index_files w path root [] files = Inr files"
| "index_files w path root (f # filenames) files =
     (case os_path_relpath w (os_path_join root f) path of
        Inl e \<Rightarrow> Inl e
      | Inr rel_path \<Rightarrow> index_files w path root filenames (insert (normalize_rel rel_path) files))"

fun index_walk :: "world \<Rightarrow> string \<Rightarrow> (string \<times> name list \<times> name list) list \<Rightarrow> string set \<Rightarrow> exc + string set" where
  "index_walk w path [] files = Inr files"
| "index_walk w path ((root, dirs, filenames) # rest) files =
     (case index_files w path root filenames files of
        Inl e \<Rightarrow> Inl e
      | Inr files' \<Rightarrow> index_walk w path rest files')"

definition list_files_recursive :: "world \<Rightarrow> string \<Rightarrow> exc + string set" where
  "list_files_recursive w path = index_walk w path (os_walk w path) {}"

definition compare :: "world \<Rightarrow> string \<Rightarrow> string \<Rightarrow> exc + string set" where
  "compare w origin dest =
     (case list_files_recursive w origin of
        Inl e \<Rightarrow> Inl e
      | Inr origin_files \<Rightarrow>
          (case list_files_recursive w dest of
             Inl e \<Rightarrow> Inl e
           | Inr dest_files \<Rightarrow> Inr (origin_files - dest_files)))"

subsection \<open>File operations\<close>

text \<open>
  \<^verbatim>\<open>os.makedirs(name, exist_ok=True)\<close> creates the missing directories of the chain from
  the root down. \<^verbatim>\<open>open(p, "rb")\<close> gives the location of an existing regular file,
  \<^verbatim>\<open>open(p, "wb")\<close> creates the file or truncates it. The read loop of
  \<^verbatim>\<open>copy_file\<close> is \<open>copy_chunks\<close>: \<^verbatim>\<open>read(n)\<close> raises \<^verbatim>\<open>ValueError\<close> for
  \<open>n < -1\<close>, returns the rest of the file for \<open>n = -1\<close> and at most \<open>n\<close> bytes
  otherwise; the loop ends at the first empty read. \<open>shutil_copy2\<close> is
  \<^verbatim>\<open>shutil.copy2\<close>: a destination that is a directory stands for the entry of the
  source's base name in it, copying a file onto itself raises \<^verbatim>\<open>SameFileError\<close>, and
  a failure to copy the timestamps is raised.
\<close>

fun mkdir_chain :: "string \<Rightarrow> name list \<Rightarrow> name list \<Rightarrow> world \<Rightarrow> exc option \<times> world" where
  "mkdir_chain p pre [] w = (None, w)"
| "mkdir_chain p pre (c # cs) w =
     (case lookup (tree w) (pre @ [c]) of
        Some (Dir es) \<Rightarrow> mkdir_chain p (pre @ [c]) cs w
      | Some (File d t) \<Rightarrow> (Some (if cs = [] then FileExistsError p else NotADirectoryError p), w)
      | None \<Rightarrow>
          (case faults w OpMkdir (pre @ [c]) of
             Some e \<Rightarrow> (Some e, w)
           | None \<Rightarrow>
               (case lookup (tree w) pre of
                  Some (Dir es) \<Rightarrow>
                    mkdir_chain p (pre @ [c]) cs (w\<lparr>tree := put (tree w) (pre @ [c]) (Dir [])\<rparr>)
                | _ \<Rightarrow> (Some (NotADirectoryError p), w))))"

definition os_makedirs :: "string \<Rightarrow> world \<Rightarrow> exc option \<times> world" where
  "os_makedirs name w =
     (if name = [] then (Some (FileNotFoundError name), w)
      else mkdir_chain name [] (resolve w name) w)"

definition ensure_parent_dir :: "string \<Rightarrow> world \<Rightarrow> exc option \<times> world" where
  "ensure_parent_dir path w =
     (let parent = os_path_dirname path
      in if parent \<noteq> [] \<and> \<not> os_path_exists w parent then os_makedirs parent w
         else (None, w))"

definition open_rb :: "world \<Rightarrow> string \<Rightarrow> exc + name list" where
  "open_rb w p =
     (case faults w OpOpenRead (resolve w p) of
        Some e \<Rightarrow> Inl e
      | None \<Rightarrow>
          (case node_at w p of
             Inl e \<Rightarrow> Inl e
           | Inr (Dir es) \<Rightarrow> Inl (IsADirectoryError p)
           | Inr (File d t) \<Rightarrow> Inr (resolve w p)))"

definition open_wb :: "world \<Rightarrow> string \<Rightarrow> exc + name list \<times> world" where
  "open_wb w p =
     (case faults w OpOpenWrite (resolve w p) of
        Some e \<Rightarrow> Inl e
      | None \<Rightarrow>
          if p = [] then Inl (FileNotFoundError p)
          else
            (case lookup (tree w) (resolve w p) of
               Some (Dir es) \<Rightarrow> Inl (IsADirectoryError p)
             | Some (File d t) \<Rightarrow>
                 Inr (resolve w p, w\<lparr>tree := put (tree w) (resolve w p) (File [] (fst t, clock w))\<rparr>)
             | None \<Rightarrow>
                 (case lookup (tree w) (butlast (resolve w p)) of
                    Some (Dir es) \<Rightarrow>
                      Inr (resolve w p,
                           w\<lparr>tree := put (tree w) (resolve w p) (File [] (clock w, clock w))\<rparr>)
                  | Some (File d t) \<Rightarrow> Inl (NotADirectoryError p)
                  | None \<Rightarrow>
                      if blocked (tree w) (resolve w p) then Inl (NotADirectoryError p)
                      else Inl (FileNotFoundError p))))"

definition file_content :: "world \<Rightarrow> name list \<Rightarrow> bytes" where
  "file_content w loc = (case lookup (tree w) loc of Some (File d t) \<Rightarrow> d | _ \<Rightarrow> [])"

definition file_stamp :: "world \<Rightarrow> name list \<Rightarrow> stamp" where
  "file_stamp w loc = (case lookup (tree w) loc of Some (File d t) \<Rightarrow> t | _ \<Rightarrow> (0, 0))"

definition write_content :: "world \<Rightarrow> name list \<Rightarrow> bytes \<Rightarrow> world" where
  "write_content w loc out =
     w\<lparr>tree := put (tree w) loc (File out (fst (file_stamp w loc), clock w))\<rparr>"

definition file_read :: "bytes \<Rightarrow> int \<Rightarrow> exc + bytes" where
  "file_read data n =
     (if n < - 1 then Inl (ValueError ''read length must be non-negative or -1'')
      else if n = - 1 then Inr data
      else Inr (take (nat n) data))"

function copy_chunks :: "exc option \<Rightarrow> exc option \<Rightarrow> int \<Rightarrow> bytes \<Rightarrow> bytes \<Rightarrow> exc option \<times> bytes" where
  "copy_chunks rfault wfault chunk_size data out =
     (case rfault of
        Some e \<Rightarrow> (Some e, out)
      | None \<Rightarrow>
          (case file_read data chunk_size of
             Inl e \<Rightarrow> (Some e, out)
           | Inr buf \<Rightarrow>
               if buf = [] then (None, out)
               else (case wfault of
                       Some e \<Rightarrow> (Some e, out)
                     | None \<Rightarrow> copy_chunks rfault wfault chunk_size (drop (length buf) data) (out @ buf))))"
  by pat_completeness auto
termination
  by (relation "measure (\<lambda>(rfault, wfault, n, data, out). length data)")
     (auto simp: file_read_def split: if_splits)

definition os_stat :: "world \<Rightarrow> string \<Rightarrow> exc + node" where
  "os_stat w p =
     (case faults w OpStat (resolve w p) of Some e \<Rightarrow> Inl e | None \<Rightarrow> node_at w p)"

fun st_times :: "node \<Rightarrow> stamp" where
  "st_times (File d t) = t"
| "st_times (Dir es) = (0, 0)"

definition os_utime :: "world \<Rightarrow> string \<Rightarrow> stamp \<Rightarrow> exc + world" where
  "os_utime w p ts =
     (case faults w OpUtime (resolve w p) of
        Some e \<Rightarrow> Inl e
      | None \<Rightarrow>
          (case node_at w p of
             Inl e \<Rightarrow> Inl e
           | Inr (Dir es) \<Rightarrow> Inr w
           | Inr (File d t) \<Rightarrow> Inr (w\<lparr>tree := put (tree w) (resolve w p) (File d ts)\<rparr>)))"

definition samefile :: "world \<Rightarrow> string \<Rightarrow> string \<Rightarrow> bool" where
  "samefile w a b = (os_path_exists w a \<and> os_path_exists w b \<and> resolve w a = resolve w b)"

definition COPY_BUFSIZE :: int where
  "COPY_BUFSIZE = 64 * 1024"

definition shutil_copy2 :: "string \<Rightarrow> string \<Rightarrow> world \<Rightarrow> exc option \<times> world" where
  "shutil_copy2 src dst0 w =
     (let dst = (if os_path_isdir w dst0 then os_path_join dst0 (os_path_basename src) else dst0)
      in if samefile w src dst then (Some (SameFileError src dst), w)
         else
           (case open_rb w src of
              Inl e \<Rightarrow> (Some e, w)
            | Inr r \<Rightarrow>
                (case open_wb w dst of
                   Inl e \<Rightarrow> (Some e, w)
                 | Inr (h, w2) \<Rightarrow>
                     (case copy_chunks (faults w2 OpRead r) (faults w2 OpWrite h) COPY_BUFSIZE
                             (file_content w2 r) [] of
                        (Some e, out) \<Rightarrow> (Some e, write_content w2 h out)
                      | (None, out) \<Rightarrow>
                          (case os_stat (write_content w2 h out) src of
                             Inl e \<Rightarrow> (Some e, write_content w2 h out)
                           | Inr st \<Rightarrow>
                               (case os_utime (write_content w2 h out) dst (st_times st) of
                                  Inl e \<Rightarrow> (Some e, write_content w2 h out)
                                | Inr w4 \<Rightarrow> (None, w4)))))))"

definition DEFAULT_CHUNK_SIZE :: int where
  "DEFAULT_CHUNK_SIZE = 64 * 1024 * 1024"

definition copy_file :: "string \<Rightarrow> string \<Rightarrow> bool \<Rightarrow> int \<Rightarrow> world \<Rightarrow> exc option \<times> world" where
  "copy_file src dst chunked chunk_size w =
     (case ensure_parent_dir dst w of
        (Some e, w1) \<Rightarrow> (Some e, w1)
      | (None, w1) \<Rightarrow>
          if \<not> chunked then shutil_copy2 src dst w1
          else
            (case open_rb w1 src of
               Inl e \<Rightarrow> (Some e, w1)
             | Inr r \<Rightarrow>
                 (case open_wb w1 dst of
                    Inl e \<Rightarrow> (Some e, w1)
                  | Inr (h, w2) \<Rightarrow>
                      (case copy_chunks (faults w2 OpRead r) (faults w2 OpWrite h) chunk_size
                              (file_content w2 r) [] of
                         (Some e, out) \<Rightarrow> (Some e, write_content w2 h out)
                       | (None, out) \<Rightarrow>
                           (case os_stat (write_content w2 h out) src of
                              Inl e \<Rightarrow> (None, write_content w2 h out)
                            | Inr st \<Rightarrow>
                                (case os_utime (write_content w2 h out) dst (st_times st) of
                                   Inl e \<Rightarrow> (None, write_content w2 h out)
                                 | Inr w4 \<Rightarrow> (None, w4)))))))"

subsection \<open>Batch copy\<close>

fun copy_each :: "string list \<Rightarrow> string \<Rightarrow> string \<Rightarrow> bool \<Rightarrow> int \<times> string list \<Rightarrow> world
    \<Rightarrow> (int \<times> string list) \<times> world" where
  "copy_each [] origin dest chunked (success, errors) w = ((success, errors), w)"
| "copy_each (rel_path # rest) origin dest chunked (success, errors) w =
     (case copy_file (os_path_join origin (normalize_rel rel_path))
                     (os_path_join dest (normalize_rel rel_path)) chunked DEFAULT_CHUNK_SIZE w of
        (None, w') \<Rightarrow> copy_each rest origin dest chunked (success + 1, errors) w'
      | (Some e, w') \<Rightarrow>
          copy_each rest origin dest chunked
            (success, errors @ [normalize_rel rel_path @ '' -> ERROR: '' @ str_exc e]) w')"

definition copy_missing_files :: "string set \<Rightarrow> string \<Rightarrow> string \<Rightarrow> bool \<Rightarrow> world
    \<Rightarrow> (int \<times> string list) \<times> world" where
  "copy_missing_files missing_files origin dest chunked w =
     copy_each (sorted_list_of_set missing_files) origin dest chunked (0, []) w"

datatype signal = Line_log string | Progress int int string | Finished int int string

fun run_each :: "string list \<Rightarrow> int \<Rightarrow> int \<Rightarrow> string \<Rightarrow> string \<Rightarrow> bool \<Rightarrow> int \<times> int
    \<Rightarrow> signal list \<Rightarrow> world \<Rightarrow> (int \<times> int) \<times> signal list \<times> world" where
  "run_each [] i n_total origin dest chunked (success, errors) emitted w =
     ((success, errors), emitted, w)"
| "run_each (rel_path # rest) i n_total origin dest chunked (success, errors) emitted w =
     (case copy_file (os_path_join origin (normalize_rel rel_path))
                     (os_path_join dest (normalize_rel rel_path)) chunked DEFAULT_CHUNK_SIZE w of
        (None, w') \<Rightarrow>
          run_each rest (i + 1) n_total origin dest chunked (success + 1, errors)
            (emitted @ [Line_log (''OK: '' @ normalize_rel rel_path),
                        Progress i n_total (''OK: '' @ normalize_rel rel_path)]) w'
      | (Some e, w') \<Rightarrow>
          run_each rest (i + 1) n_total origin dest chunked (success, errors + 1)
            (emitted @ [Line_log (''ERROR: '' @ normalize_rel rel_path @ '' ('' @ str_exc e @ '')''),
                        Progress i n_total
                          (''ERROR: '' @ normalize_rel rel_path @ '' ('' @ str_exc e @ '')'')]) w')"

definition run :: "string list \<Rightarrow> string \<Rightarrow> string \<Rightarrow> bool \<Rightarrow> world \<Rightarrow> signal list \<times> world" where
  "run files origin dest chunked w =
     (case run_each files 1 (int (length files)) origin dest chunked (0, 0) [] w of
        ((success, errors), emitted, w') \<Rightarrow> (emitted @ [Finished success errors dest], w'))"

subsection \<open>Observations of a batch\<close>

text \<open>
  The statements about the two batch loops speak of the successive calls of
  \<^verbatim>\<open>copy_file\<close>. \<open>outcomes\<close> replays the loop body shared by
  \<^verbatim>\<open>copy_missing_files\<close> and \<^verbatim>\<open>CopyWorker.run\<close> and lists, for each path in the order
  of iteration, the normalized path and what its \<^verbatim>\<open>copy_file\<close> call raised (\<open>None\<close>:
  nothing), every call starting in the file system the previous call left.
  \<open>error_line\<close> is the entry appended to \<^verbatim>\<open>errors\<close>, \<open>run_msg\<close> the message of the
  worker, \<open>signals_from\<close> the signals the worker emits for a list of outcomes.
\<close>

fun outcomes :: "string list \<Rightarrow> string \<Rightarrow> string \<Rightarrow> bool \<Rightarrow> world \<Rightarrow> (string \<times> exc option) list" where
  "outcomes [] origin dest chunked w = []"
| "outcomes (rel_path # rest) origin dest chunked w =
     (normalize_rel rel_path,
      fst (copy_file (os_path_join origin (normalize_rel rel_path))
                     (os_path_join dest (normalize_rel rel_path)) chunked DEFAULT_CHUNK_SIZE w))
     # outcomes rest origin dest chunked
         (snd (copy_file (os_path_join origin (normalize_rel rel_path))
                         (os_path_join dest (normalize_rel rel_path)) chunked DEFAULT_CHUNK_SIZE w))"

text \<open>
  \<open>world_after\<close> is the file system the successive \<^verbatim>\<open>copy_file\<close> calls of the loop
  leave behind: each call, whether it raised or not, runs in the file system left by the
  one before.
\<close>

fun world_after :: "string list \<Rightarrow> string \<Rightarrow> string \<Rightarrow> bool \<Rightarrow> world \<Rightarrow> world" where
  "world_after [] origin dest chunked w = w"
| "world_after (rel_path # rest) origin dest chunked w =
     world_after rest origin dest chunked
       (snd (copy_file (os_path_join origin (normalize_rel rel_path))
                       (os_path_join dest (normalize_rel rel_path)) chunked DEFAULT_CHUNK_SIZE w))"

fun error_line :: "string \<times> exc option \<Rightarrow> string list" where
  "error_line (rel_norm, None) = []"
| "error_line (rel_norm, Some e) = [rel_norm @ '' -> ERROR: '' @ str_exc e]"

fun run_msg :: "string \<times> exc option \<Rightarrow> string" where
  "run_msg (rel_norm, None) = ''OK: '' @ rel_norm"
| "run_msg (rel_norm, Some e) = ''ERROR: '' @ rel_norm @ '' ('' @ str_exc e @ '')''"

fun signals_from :: "int \<Rightarrow> int \<Rightarrow> (string \<times> exc option) list \<Rightarrow> signal list" where
  "signals_from i n [] = []"
| "signals_from i n (x # xs) =
     Line_log (run_msg x) # Progress i n (run_msg x) # signals_from (i + 1) n xs"

fun progress_of :: "signal \<Rightarrow> (int \<times> int) list" where
  "progress_of (Progress i n m) = [(i, n)]"
| "progress_of _ = []"

fun is_finished :: "signal \<Rightarrow> bool" where
  "is_finished (Finished s e d) = True"
| "is_finished _ = False"

subsection \<open>Reference description of an index\<close>






subsection \<open>An example file system\<close>

text \<open>
  Origin \<^verbatim>\<open>/A\<close> holds \<^verbatim>\<open>a.txt\<close> and \<^verbatim>\<open>sub/b.txt\<close>, destination \<^verbatim>\<open>/B\<close> holds
  \<^verbatim>\<open>a.txt\<close>; no operation fails for a reason outside the tree.
\<close>

definition demo_world :: world where
  "demo_world =
     \<lparr>tree = Dir [(''A'', Dir [(''a.txt'', File [1, 2, 3] (5, 6)),
                              (''sub'', Dir [(''b.txt'', File [4, 5] (7, 8))])]),
                  (''B'', Dir [(''a.txt'', File [9] (1, 1))])],
      cwd = [], clock = 100, faults = (\<lambda>op loc. None)\<rparr>"

text \<open>A fault oracle under which every \<^verbatim>\<open>os.utime\<close> call fails.\<close>

definition utime_fails :: "sysop \<Rightarrow> name list \<Rightarrow> exc option" where
  "utime_fails op loc = (if op = OpUtime then Some (PermissionError ''/B/n.txt'') else None)"

section \<open>Verification\<close>

subsection \<open>Properties of path normalization\<close>

lemma normalize_rel_idem: "normalize_rel (normalize_rel p) = normalize_rel p"
  by (induction p) (simp_all add: normalize_rel_def)

lemma normalize_rel_no_bslash: "CHR 0x5C \<notin> set (normalize_rel p)"
  by (induction p) (simp_all add: normalize_rel_def)

lemma normalize_rel_id: "CHR 0x5C \<notin> set p \<Longrightarrow> normalize_rel p = p"
  by (induction p) (auto simp: normalize_rel_def)

lemma normalize_rel_keeps:
  "c \<noteq> CHR 0x5C \<Longrightarrow> c \<in> set p \<Longrightarrow> c \<in> set (normalize_rel p)"
  by (induction p) (auto simp: normalize_rel_def)

text \<open>
  Claim C5. Path normalization is a total function on strings (it has no error result);
  its output never contains a backslash and has the length of its input, every
  character other than the backslash is kept in place, a path without backslash is
  returned unchanged, so the function is idempotent, and
  \<^verbatim>\<open>normalize("a\\b/c") == normalize("a/b/c")\<close>.
\<close>

theorem normalize_rel_canonical:
  "CHR 0x5C \<notin> set (normalize_rel p)
   \<and> length (normalize_rel p) = length p
   \<and> (\<forall>i < length p. p ! i \<noteq> CHR 0x5C \<longrightarrow> normalize_rel p ! i = p ! i)
   \<and> (\<forall>i < length p. p ! i = CHR 0x5C \<longrightarrow> normalize_rel p ! i = CHR ''/'')
   \<and> (CHR 0x5C \<notin> set p \<longrightarrow> normalize_rel p = p)
   \<and> normalize_rel (normalize_rel p) = normalize_rel p
   \<and> normalize_rel (''a'' @ [CHR 0x5C] @ ''b/c'') = normalize_rel ''a/b/c''"
proof -
  have "\<forall>i < length p. p ! i \<noteq> CHR 0x5C \<longrightarrow> normalize_rel p ! i = p ! i"
    by (simp add: normalize_rel_def)
  moreover have "\<forall>i < length p. p ! i = CHR 0x5C \<longrightarrow> normalize_rel p ! i = CHR ''/''"
    by (simp add: normalize_rel_def)
  moreover have "length (normalize_rel p) = length p"
    by (simp add: normalize_rel_def)
  moreover have "normalize_rel (''a'' @ [CHR 0x5C] @ ''b/c'') = normalize_rel ''a/b/c''"
    by (simp add: normalize_rel_def)
  ultimately show ?thesis
    using normalize_rel_no_bslash normalize_rel_id normalize_rel_idem by blast
qed

theorem normalize_rel_canonical_witness:
  "normalize_rel (''dir'' @ [CHR 0x5C] @ ''sub/f.txt'') = ''dir/sub/f.txt''
   \<and> normalize_rel ''dir/sub/f.txt'' = ''dir/sub/f.txt''
   \<and> CHR 0x5C \<notin> set (normalize_rel (''dir'' @ [CHR 0x5C] @ ''sub/f.txt''))"
  using normalize_rel_canonical [of "''dir'' @ [CHR 0x5C] @ ''sub/f.txt''"]
  by (simp add: normalize_rel_def)

subsection \<open>Evaluation on concrete inputs\<close>

lemmas model_defs =
  os_path_join_def os_path_dirname_def os_path_basename_def resolve_def blocked_def node_at_def
  os_path_exists_def os_path_isdir_def os_walk_def os_path_relpath_def list_files_recursive_def
  compare_def os_makedirs_def ensure_parent_dir_def open_rb_def open_wb_def file_content_def
  file_stamp_def write_content_def file_read_def os_stat_def os_utime_def samefile_def
  COPY_BUFSIZE_def shutil_copy2_def DEFAULT_CHUNK_SIZE_def copy_file_def copy_missing_files_def
  run_def normalize_rel_def

lemma sorted_two_raw:
  "sorted_list_of_set {''a'' @ [CHR 0x5C] @ ''b'', ''a/c''} = [''a/c'', ''a'' @ [CHR 0x5C] @ ''b'']"
  by code_simp

lemma sorted_two_ok: "sorted_list_of_set {''sub/b.txt'', ''zz''} = [''sub/b.txt'', ''zz'']"
  by code_simp

subsection \<open>The batch loops\<close>

lemma length_outcomes: "length (outcomes xs origin dest chunked w) = length xs"
  by (induction xs arbitrary: w) simp_all

lemma map_fst_outcomes: "map fst (outcomes xs origin dest chunked w) = map normalize_rel xs"
  by (induction xs arbitrary: w) simp_all

lemma copy_each_outcomes:
  "fst (copy_each xs origin dest chunked (success, errors) w) =
     (success + int (length (filter (\<lambda>x. snd x = None) (outcomes xs origin dest chunked w))),
      errors @ concat (map error_line (outcomes xs origin dest chunked w)))"
proof (induction xs arbitrary: success errors w)
  case Nil
  show ?case by simp
next
  case (Cons x xs)
  show ?case
  proof (cases "copy_file (os_path_join origin (normalize_rel x))
                  (os_path_join dest (normalize_rel x)) chunked DEFAULT_CHUNK_SIZE w")
    case (Pair r w')
    then show ?thesis
      using Cons.IH [of "success + 1" errors w']
            Cons.IH [of success "errors @ [normalize_rel x @ '' -> ERROR: '' @ str_exc (the r)]" w']
      by (cases r) simp_all
  qed
qed

lemma length_error_lines:
  "length (concat (map error_line outs)) = length (filter (\<lambda>x. snd x \<noteq> None) outs)"
proof (induction outs)
  case Nil
  show ?case by simp
next
  case (Cons a outs)
  obtain p r where a: "a = (p, r)" by (cases a)
  show ?case using Cons a by (cases r) simp_all
qed

lemma filter_split_length:
  "length (filter (\<lambda>x. snd x = None) outs) + length (filter (\<lambda>x. snd x \<noteq> None) outs)
     = length outs"
  by (induction outs) simp_all

lemma run_each_outcomes:
  "fst (run_each xs i n origin dest chunked (success, errors) emitted w) =
     (success + int (length (filter (\<lambda>x. snd x = None) (outcomes xs origin dest chunked w))),
      errors + int (length (filter (\<lambda>x. snd x \<noteq> None) (outcomes xs origin dest chunked w))))
   \<and> fst (snd (run_each xs i n origin dest chunked (success, errors) emitted w)) =
       emitted @ signals_from i n (outcomes xs origin dest chunked w)"
proof (induction xs arbitrary: i success errors emitted w)
  case Nil
  show ?case by simp
next
  case (Cons x xs)
  show ?case
  proof (cases "copy_file (os_path_join origin (normalize_rel x))
                  (os_path_join dest (normalize_rel x)) chunked DEFAULT_CHUNK_SIZE w")
    case (Pair r w')
    show ?thesis
    proof (cases r)
      case None
      then show ?thesis
        using Pair Cons.IH [of "i + 1" "success + 1" errors
            "emitted @ [Line_log (''OK: '' @ normalize_rel x),
                        Progress i n (''OK: '' @ normalize_rel x)]" w']
        by simp
    next
      case (Some e)
      then show ?thesis
        using Pair Cons.IH [of "i + 1" success "errors + 1"
            "emitted @ [Line_log (''ERROR: '' @ normalize_rel x @ '' ('' @ str_exc e @ '')''),
                        Progress i n (''ERROR: '' @ normalize_rel x @ '' ('' @ str_exc e @ '')'')]" w']
        by simp
    qed
  qed
qed

lemma progress_signals_from:
  "concat (map progress_of (signals_from i n outs)) =
     map (\<lambda>k. (i + int k, n)) [0..<length outs]"
proof (induction outs arbitrary: i)
  case Nil
  show ?case by simp
next
  case (Cons a outs)
  have "map (\<lambda>k. (i + int k, n)) [0..<length (a # outs)] =
        (i, n) # map (\<lambda>k. (i + 1 + int k, n)) [0..<length outs]"
    by (simp add: upt_conv_Cons map_Suc_upt [symmetric] del: upt_Suc) 
  then show ?case using Cons [of "i + 1"] by simp
qed

lemma no_finished_signals_from: "filter is_finished (signals_from i n outs) = []"
  by (induction outs arbitrary: i) simp_all

lemma length_signals_from: "length (signals_from i n outs) = 2 * length outs"
  by (induction outs arbitrary: i) simp_all

lemma run_signals:
  "fst (run files origin dest chunked w) =
     signals_from 1 (int (length files)) (outcomes files origin dest chunked w)
     @ [Finished (int (length (filter (\<lambda>x. snd x = None) (outcomes files origin dest chunked w))))
                 (int (length (filter (\<lambda>x. snd x \<noteq> None) (outcomes files origin dest chunked w))))
                 dest]"
proof -
  obtain s e em w' where r: "run_each files 1 (int (length files)) origin dest chunked (0, 0) [] w
      = ((s, e), em, w')"
    by (metis prod.exhaust)
  show ?thesis
    using run_each_outcomes [of files 1 "int (length files)" origin dest chunked 0 0 "[]" w] r
    by (simp add: run_def)
qed

lemma copy_each_world:
  "snd (copy_each xs origin dest chunked (success, errors) w) = world_after xs origin dest chunked w"
proof (induction xs arbitrary: success errors w)
  case Nil
  show ?case by simp
next
  case (Cons x xs)
  show ?case
  proof (cases "copy_file (os_path_join origin (normalize_rel x))
                  (os_path_join dest (normalize_rel x)) chunked DEFAULT_CHUNK_SIZE w")
    case (Pair r w')
    then show ?thesis
      using Cons.IH [of "success + 1" errors w']
            Cons.IH [of success "errors @ [normalize_rel x @ '' -> ERROR: '' @ str_exc (the r)]" w']
      by (cases r) simp_all
  qed
qed

lemma run_each_world:
  "snd (snd (run_each xs i n origin dest chunked (success, errors) emitted w)) =
     world_after xs origin dest chunked w"
proof (induction xs arbitrary: i success errors emitted w)
  case Nil
  show ?case by simp
next
  case (Cons x xs)
  show ?case
  proof (cases "copy_file (os_path_join origin (normalize_rel x))
                  (os_path_join dest (normalize_rel x)) chunked DEFAULT_CHUNK_SIZE w")
    case (Pair r w')
    show ?thesis
    proof (cases r)
      case None
      then show ?thesis
        using Pair Cons.IH [of "i + 1" "success + 1" errors
            "emitted @ [Line_log (''OK: '' @ normalize_rel x),
                        Progress i n (''OK: '' @ normalize_rel x)]" w']
        by simp
    next
      case (Some e)
      then show ?thesis
        using Pair Cons.IH [of "i + 1" success "errors + 1"
            "emitted @ [Line_log (''ERROR: '' @ normalize_rel x @ '' ('' @ str_exc e @ '')''),
                        Progress i n (''ERROR: '' @ normalize_rel x @ '' ('' @ str_exc e @ '')'')]" w']
        by simp
    qed
  qed
qed

lemma run_world: "snd (run files origin dest chunked w) = world_after files origin dest chunked w"
proof -
  obtain s e em w' where r: "run_each files 1 (int (length files)) origin dest chunked (0, 0) [] w
      = ((s, e), em, w')"
    by (metis prod.exhaust)
  show ?thesis
    using run_each_world [of files 1 "int (length files)" origin dest chunked 0 0 "[]" w] r
    by (simp add: run_def)
qed

lemma outcomes_nth:
  "k < length xs \<Longrightarrow>
     outcomes xs origin dest chunked w ! k =
       (normalize_rel (xs ! k),
        fst (copy_file (os_path_join origin (normalize_rel (xs ! k)))
                       (os_path_join dest (normalize_rel (xs ! k))) chunked DEFAULT_CHUNK_SIZE
                       (world_after (take k xs) origin dest chunked w)))"
proof (induction xs arbitrary: k w)
  case Nil
  then show ?case by simp
next
  case (Cons x xs)
  show ?case
  proof (cases k)
    case 0
    then show ?thesis by simp
  next
    case (Suc j)
    then have "j < length xs" using Cons.prems by simp
    then show ?thesis using Suc Cons.IH [of j] by simp
  qed
qed

lemma sorted_two_fail: "sorted_list_of_set {''sub/b.txt'', ''a.missing''} = [''a.missing'', ''sub/b.txt'']"
  by code_simp

lemma demo_batch:
  "fst (copy_missing_files {''sub/b.txt'', ''a.missing''} ''/A'' ''/B'' True demo_world) =
     (1, [''a.missing -> ERROR: [Errno 2] No such file or directory: '' @ [CHR 0x27]
            @ ''/A/a.missing'' @ [CHR 0x27]])"
  by (simp add: model_defs demo_world_def sorted_two_fail)

lemma demo_batch_copied:
  "file_content (snd (copy_missing_files {''sub/b.txt'', ''a.missing''} ''/A'' ''/B'' True demo_world))
     [''B'', ''sub'', ''b.txt''] = [4, 5]"
  by (simp add: model_defs demo_world_def sorted_two_fail)

lemma demo_run:
  "fst (run [''a.missing'', ''sub/b.txt''] ''/A'' ''/B'' True demo_world) =
     [Line_log (''ERROR: a.missing ([Errno 2] No such file or directory: '' @ [CHR 0x27] @ ''/A/a.missing'' @ [CHR 0x27] @ '')''),
      Progress 1 2 (''ERROR: a.missing ([Errno 2] No such file or directory: '' @ [CHR 0x27] @ ''/A/a.missing'' @ [CHR 0x27] @ '')''),
      Line_log ''OK: sub/b.txt'', Progress 2 2 ''OK: sub/b.txt'',
      Finished 1 1 ''/B'']"
  by (simp add: model_defs demo_world_def)

lemma demo_world_after:
  "file_content (world_after [''a.missing'', ''sub/b.txt''] ''/A'' ''/B'' True demo_world)
     [''B'', ''sub'', ''b.txt''] = [4, 5]
   \<and> lookup (tree demo_world) [''B'', ''sub'', ''b.txt''] = None"
  by (simp add: model_defs demo_world_def)

text \<open>
  Claim C2. A failure while copying one file never aborts the batch, in
  \<^verbatim>\<open>copy_missing_files\<close> and in the worker \<^verbatim>\<open>CopyWorker.run\<close> alike. For every list
  of paths the k-th \<^verbatim>\<open>copy_file\<close> call is made on the k-th path, in the file system
  the first k - 1 calls left, whatever they raised; so there is one call per path (N
  calls for a set of N missing paths). \<^verbatim>\<open>copy_missing_files\<close> returns as success count
  the number of calls that raised nothing and as error list one line
  \<^verbatim>\<open>"<path> -> ERROR: <reason>"\<close> per call that raised, in order, so that
  success count + number of error lines = N, and it leaves the file system all N calls
  produced. The worker emits for every file the message of its call
  (\<^verbatim>\<open>"OK: <path>"\<close> or \<^verbatim>\<open>"ERROR: <path> (<reason>)"\<close>), then the completion signal
  with the number of calls that raised nothing and the number that raised, which add up
  to the number of files, and leaves the file system all the calls produced.
\<close>

theorem copy_missing_files_isolates_failures:
  assumes "finite missing_files"
  shows "length (outcomes (sorted_list_of_set missing_files) origin dest chunked w) = card missing_files
    \<and> (\<forall>k < length xs.
          outcomes xs origin dest chunked w ! k =
            (normalize_rel (xs ! k),
             fst (copy_file (os_path_join origin (normalize_rel (xs ! k)))
                            (os_path_join dest (normalize_rel (xs ! k))) chunked DEFAULT_CHUNK_SIZE
                            (world_after (take k xs) origin dest chunked w))))
    \<and> copy_missing_files missing_files origin dest chunked w =
        ((int (length (filter (\<lambda>x. snd x = None)
                 (outcomes (sorted_list_of_set missing_files) origin dest chunked w))),
          concat (map error_line (outcomes (sorted_list_of_set missing_files) origin dest chunked w))),
         world_after (sorted_list_of_set missing_files) origin dest chunked w)
    \<and> fst (fst (copy_missing_files missing_files origin dest chunked w))
        + int (length (snd (fst (copy_missing_files missing_files origin dest chunked w))))
        = int (card missing_files)
    \<and> run files origin dest chunked w =
        (signals_from 1 (int (length files)) (outcomes files origin dest chunked w)
           @ [Finished (int (length (filter (\<lambda>x. snd x = None) (outcomes files origin dest chunked w))))
                       (int (length (filter (\<lambda>x. snd x \<noteq> None) (outcomes files origin dest chunked w))))
                       dest],
         world_after files origin dest chunked w)
    \<and> length (outcomes files origin dest chunked w) = length files
    \<and> int (length (filter (\<lambda>x. snd x = None) (outcomes files origin dest chunked w)))
        + int (length (filter (\<lambda>x. snd x \<noteq> None) (outcomes files origin dest chunked w)))
        = int (length files)"
proof -
  let ?xs = "sorted_list_of_set missing_files"
  let ?outs = "outcomes ?xs origin dest chunked w"
  have len: "length ?outs = card missing_files"
    using assms by (simp add: length_outcomes)
  have nth: "\<forall>k < length xs.
          outcomes xs origin dest chunked w ! k =
            (normalize_rel (xs ! k),
             fst (copy_file (os_path_join origin (normalize_rel (xs ! k)))
                            (os_path_join dest (normalize_rel (xs ! k))) chunked DEFAULT_CHUNK_SIZE
                            (world_after (take k xs) origin dest chunked w)))"
    using outcomes_nth by blast
  have res: "fst (copy_missing_files missing_files origin dest chunked w) =
      (int (length (filter (\<lambda>x. snd x = None) ?outs)), concat (map error_line ?outs))"
    using copy_each_outcomes [of ?xs origin dest chunked 0 "[]" w]
    by (simp add: copy_missing_files_def)
  have wld: "snd (copy_missing_files missing_files origin dest chunked w) =
      world_after ?xs origin dest chunked w"
    by (simp add: copy_missing_files_def copy_each_world)
  have both: "copy_missing_files missing_files origin dest chunked w =
      ((int (length (filter (\<lambda>x. snd x = None) ?outs)), concat (map error_line ?outs)),
       world_after ?xs origin dest chunked w)"
    using res wld by (simp add: prod_eq_iff)
  have "int (length (filter (\<lambda>x. snd x = None) ?outs)) + int (length (concat (map error_line ?outs)))
      = int (length ?outs)"
    using filter_split_length [of ?outs] length_error_lines [of ?outs] by linarith
  then have sum: "fst (fst (copy_missing_files missing_files origin dest chunked w))
        + int (length (snd (fst (copy_missing_files missing_files origin dest chunked w))))
        = int (card missing_files)"
    using len res by simp
  let ?fouts = "outcomes files origin dest chunked w"
  have rn: "run files origin dest chunked w =
        (signals_from 1 (int (length files)) ?fouts
           @ [Finished (int (length (filter (\<lambda>x. snd x = None) ?fouts)))
                       (int (length (filter (\<lambda>x. snd x \<noteq> None) ?fouts))) dest],
         world_after files origin dest chunked w)"
    using run_signals [of files origin dest chunked w] run_world [of files origin dest chunked w]
    by (simp add: prod_eq_iff)
  have flen: "length ?fouts = length files"
    by (rule length_outcomes)
  have fsum: "int (length (filter (\<lambda>x. snd x = None) ?fouts))
      + int (length (filter (\<lambda>x. snd x \<noteq> None) ?fouts)) = int (length files)"
    using filter_split_length [of ?fouts] by (simp add: length_outcomes)
  show ?thesis using len nth both sum rn flen fsum by blast
qed

theorem copy_missing_files_isolates_failures_witness:
  "finite {''sub/b.txt'', ''a.missing''}
   \<and> fst (copy_missing_files {''sub/b.txt'', ''a.missing''} ''/A'' ''/B'' True demo_world) =
       (1, [''a.missing -> ERROR: [Errno 2] No such file or directory: '' @ [CHR 0x27]
              @ ''/A/a.missing'' @ [CHR 0x27]])
   \<and> file_content
        (snd (copy_missing_files {''sub/b.txt'', ''a.missing''} ''/A'' ''/B'' True demo_world))
        [''B'', ''sub'', ''b.txt''] = [4, 5]
   \<and> fst (fst (copy_missing_files {''sub/b.txt'', ''a.missing''} ''/A'' ''/B'' True demo_world))
        + int (length (snd (fst (copy_missing_files {''sub/b.txt'', ''a.missing''} ''/A'' ''/B''
             True demo_world))))
        = int (card {''sub/b.txt'', ''a.missing''})
   \<and> fst (run [''a.missing'', ''sub/b.txt''] ''/A'' ''/B'' True demo_world) =
       [Line_log (''ERROR: a.missing ([Errno 2] No such file or directory: '' @ [CHR 0x27] @ ''/A/a.missing'' @ [CHR 0x27] @ '')''),
        Progress 1 2 (''ERROR: a.missing ([Errno 2] No such file or directory: '' @ [CHR 0x27] @ ''/A/a.missing'' @ [CHR 0x27] @ '')''),
        Line_log ''OK: sub/b.txt'', Progress 2 2 ''OK: sub/b.txt'',
        Finished 1 1 ''/B'']
   \<and> lookup (tree demo_world) [''B'', ''sub'', ''b.txt''] = None
   \<and> file_content (snd (run [''a.missing'', ''sub/b.txt''] ''/A'' ''/B'' True demo_world))
        [''B'', ''sub'', ''b.txt''] = [4, 5]"
proof -
  have h: "finite {''sub/b.txt'', ''a.missing''}" by simp
  note inst = copy_missing_files_isolates_failures [OF h, of "''/A''" "''/B''" True demo_world
      "[]" "[''a.missing'', ''sub/b.txt'']"]
  have t: "fst (fst (copy_missing_files {''sub/b.txt'', ''a.missing''} ''/A'' ''/B'' True demo_world))
        + int (length (snd (fst (copy_missing_files {''sub/b.txt'', ''a.missing''} ''/A'' ''/B''
             True demo_world))))
        = int (card {''sub/b.txt'', ''a.missing''})"
    using inst by blast
  have "run [''a.missing'', ''sub/b.txt''] ''/A'' ''/B'' True demo_world =
        (signals_from 1 (int (length [''a.missing'', ''sub/b.txt'']))
             (outcomes [''a.missing'', ''sub/b.txt''] ''/A'' ''/B'' True demo_world)
           @ [Finished (int (length (filter (\<lambda>x. snd x = None)
                   (outcomes [''a.missing'', ''sub/b.txt''] ''/A'' ''/B'' True demo_world))))
                 (int (length (filter (\<lambda>x. snd x \<noteq> None)
                   (outcomes [''a.missing'', ''sub/b.txt''] ''/A'' ''/B'' True demo_world))))
                 ''/B''],
         world_after [''a.missing'', ''sub/b.txt''] ''/A'' ''/B'' True demo_world)"
    using inst by blast
  then have "snd (run [''a.missing'', ''sub/b.txt''] ''/A'' ''/B'' True demo_world) =
      world_after [''a.missing'', ''sub/b.txt''] ''/A'' ''/B'' True demo_world"
    by simp
  then have r: "file_content (snd (run [''a.missing'', ''sub/b.txt''] ''/A'' ''/B'' True demo_world))
        [''B'', ''sub'', ''b.txt''] = [4, 5]"
    using demo_world_after by simp
  show ?thesis using h t r demo_batch demo_batch_copied demo_run demo_world_after by blast
qed

text \<open>
  Claim C9. For every list of N files the worker emits, in this order, for the k-th file
  (k = 1..N) one line-log signal and one progress signal \<open>(k, N, message)\<close>, whatever the
  outcome of the copy, and then the completion signal
  \<open>(successCount, failureCount, targetDirectory)\<close>: the progress indices are exactly
  1, 2, ..., N, the completion signal occurs once and is the last signal, and its two
  counts add up to N.
\<close>

theorem run_progress_then_finished:
  "fst (run files origin dest chunked w) =
     signals_from 1 (int (length files)) (outcomes files origin dest chunked w)
     @ [Finished (int (length (filter (\<lambda>x. snd x = None) (outcomes files origin dest chunked w))))
                 (int (length (filter (\<lambda>x. snd x \<noteq> None) (outcomes files origin dest chunked w))))
                 dest]
   \<and> concat (map progress_of (fst (run files origin dest chunked w))) =
       map (\<lambda>k. (1 + int k, int (length files))) [0..<length files]
   \<and> filter is_finished (fst (run files origin dest chunked w)) =
       [last (fst (run files origin dest chunked w))]
   \<and> length (fst (run files origin dest chunked w)) = 2 * length files + 1
   \<and> int (length (filter (\<lambda>x. snd x = None) (outcomes files origin dest chunked w)))
       + int (length (filter (\<lambda>x. snd x \<noteq> None) (outcomes files origin dest chunked w)))
       = int (length files)"
proof -
  let ?outs = "outcomes files origin dest chunked w"
  have a: "concat (map progress_of (fst (run files origin dest chunked w))) =
       map (\<lambda>k. (1 + int k, int (length files))) [0..<length files]"
    using progress_signals_from [of 1 "int (length files)" ?outs]
    by (simp add: run_signals length_outcomes)
  have b: "filter is_finished (fst (run files origin dest chunked w)) =
       [last (fst (run files origin dest chunked w))]"
    by (simp add: run_signals no_finished_signals_from)
  have c: "length (fst (run files origin dest chunked w)) = 2 * length files + 1"
    by (simp add: run_signals length_signals_from length_outcomes)
  have d: "int (length (filter (\<lambda>x. snd x = None) ?outs))
       + int (length (filter (\<lambda>x. snd x \<noteq> None) ?outs)) = int (length files)"
    using filter_split_length [of ?outs] by (simp add: length_outcomes)
  show ?thesis using run_signals a b c d by blast
qed

theorem run_progress_then_finished_witness:
  "concat (map progress_of (fst (run [''a.missing'', ''sub/b.txt''] ''/A'' ''/B'' True demo_world)))
     = [(1, 2), (2, 2)]
   \<and> filter is_finished (fst (run [''a.missing'', ''sub/b.txt''] ''/A'' ''/B'' True demo_world))
     = [Finished 1 1 ''/B'']"
proof -
  have "concat (map progress_of (fst (run [''a.missing'', ''sub/b.txt''] ''/A'' ''/B'' True demo_world)))
     = map (\<lambda>k. (1 + int k, int (length [''a.missing'', ''sub/b.txt'']))) [0..<length [''a.missing'', ''sub/b.txt'']]"
    and "filter is_finished (fst (run [''a.missing'', ''sub/b.txt''] ''/A'' ''/B'' True demo_world))
     = [last (fst (run [''a.missing'', ''sub/b.txt''] ''/A'' ''/B'' True demo_world))]"
    using run_progress_then_finished [of "[''a.missing'', ''sub/b.txt'']" "''/A''" "''/B''" True demo_world]
    by blast+
  then show ?thesis
    by (simp add: demo_run upt_rec [of 0] upt_rec [of 1] upt_rec [of "Suc 0"])
qed

lemma demo_batch_raw:
  "map (takeWhile (\<lambda>c. c \<noteq> CHR '' ''))
     (snd (fst (copy_missing_files {''a'' @ [CHR 0x5C] @ ''b'', ''a/c''} ''/A'' ''/B'' True demo_world)))
   = [''a/c'', ''a/b'']"
  by (simp add: model_defs demo_world_def sorted_two_raw)

text \<open>
  Claim C6, as stated, fails: the loop sorts the paths as given and normalizes each one
  afterwards. For the input set \<^verbatim>\<open>{"a\\b", "a/c"}\<close> the order of processing is
  \<^verbatim>\<open>"a/c"\<close> then \<^verbatim>\<open>"a\\b"\<close> (the slash, 0x2F, sorts before the backslash, 0x5C), so
  the canonical paths are processed, and their failures recorded, in the order
  \<^verbatim>\<open>a/c\<close>, \<^verbatim>\<open>a/b\<close>, which is not lexicographic.
\<close>

theorem copy_missing_files_canonical_order_counterexample:
  "map (takeWhile (\<lambda>c. c \<noteq> CHR '' ''))
     (snd (fst (copy_missing_files {''a'' @ [CHR 0x5C] @ ''b'', ''a/c''} ''/A'' ''/B'' True demo_world)))
   = [''a/c'', ''a/b'']
   \<and> map fst (outcomes (sorted_list_of_set {''a'' @ [CHR 0x5C] @ ''b'', ''a/c''}) ''/A'' ''/B'' True
         demo_world) = [''a/c'', ''a/b'']
   \<and> \<not> sorted [''a/c'', ''a/b'']"
  using demo_batch_raw
  by (simp add: map_fst_outcomes sorted_two_raw normalize_rel_def)

text \<open>
  Claim C6, amended. For every finite input set of missing paths the batch runner
  processes the paths in the lexicographic order of the path strings as given (it sorts
  before normalizing and iterating), each path once, and records the failures in that
  order; when the given paths are already canonical (no backslash) this is the
  lexicographic order of the canonical relative paths.
\<close>

theorem copy_missing_files_sorted_order:
  assumes "finite missing_files"
  shows "map fst (outcomes (sorted_list_of_set missing_files) origin dest chunked w) =
           map normalize_rel (sorted_list_of_set missing_files)
    \<and> sorted (sorted_list_of_set missing_files)
    \<and> distinct (sorted_list_of_set missing_files)
    \<and> set (sorted_list_of_set missing_files) = missing_files
    \<and> snd (fst (copy_missing_files missing_files origin dest chunked w)) =
        concat (map error_line (outcomes (sorted_list_of_set missing_files) origin dest chunked w))
    \<and> ((\<forall>p \<in> missing_files. CHR 0x5C \<notin> set p) \<longrightarrow>
         map fst (outcomes (sorted_list_of_set missing_files) origin dest chunked w) =
           sorted_list_of_set missing_files)"
proof -
  let ?xs = "sorted_list_of_set missing_files"
  have a: "map fst (outcomes ?xs origin dest chunked w) = map normalize_rel ?xs"
    by (rule map_fst_outcomes)
  have b: "snd (fst (copy_missing_files missing_files origin dest chunked w)) =
        concat (map error_line (outcomes ?xs origin dest chunked w))"
    using copy_each_outcomes [of ?xs origin dest chunked 0 "[]" w]
    by (simp add: copy_missing_files_def)
  have c: "(\<forall>p \<in> missing_files. CHR 0x5C \<notin> set p) \<longrightarrow> map normalize_rel ?xs = ?xs"
  proof
    assume h: "\<forall>p \<in> missing_files. CHR 0x5C \<notin> set p"
    have "\<forall>p \<in> set ?xs. normalize_rel p = p"
      using h assms by (simp add: normalize_rel_id)
    then show "map normalize_rel ?xs = ?xs"
      by (simp add: map_idI)
  qed
  show ?thesis using a b c assms by simp
qed

theorem copy_missing_files_sorted_order_witness:
  "finite {''zz'', ''sub/b.txt''}
   \<and> CHR 0x5C \<notin> set ''zz'' \<and> CHR 0x5C \<notin> set ''sub/b.txt''
   \<and> map fst (outcomes (sorted_list_of_set {''zz'', ''sub/b.txt''}) ''/A'' ''/B'' True demo_world)
       = [''sub/b.txt'', ''zz'']"
proof -
  have h: "finite {''zz'', ''sub/b.txt''}" by simp
  have n: "\<forall>p \<in> {''zz'', ''sub/b.txt''}. CHR 0x5C \<notin> set p" by simp
  have "map fst (outcomes (sorted_list_of_set {''zz'', ''sub/b.txt''}) ''/A'' ''/B'' True demo_world)
       = sorted_list_of_set {''zz'', ''sub/b.txt''}"
    using copy_missing_files_sorted_order [OF h, of "''/A''" "''/B''" True demo_world] n
    by blast
  then show ?thesis using h n by (simp add: sorted_two_ok insert_commute)
qed

subsection \<open>Lookup and update in the file tree\<close>

lemma map_of_update_same: "map_of (AList.update c m es) c = Some m"
  by (simp add: update_conv')

lemma map_of_update_other: "c' \<noteq> c \<Longrightarrow> map_of (AList.update c m es) c' = map_of es c'"
  by (simp add: update_conv')

lemma lookup_put_below:
  "lookup t q \<noteq> None \<or> (q \<noteq> [] \<and> (\<exists>es. lookup t (butlast q) = Some (Dir es)))
   \<Longrightarrow> lookup (put t q m) (q @ x) = lookup m x"
proof (induction t q m rule: put.induct)
  case (1 n m)
  show ?case by simp
next
  case (2 d t c cs m)
  then show ?case by (cases cs) auto
next
  case (3 es c cs m)
  show ?case
  proof (cases "map_of es c")
    case None
    with 3(2) have "cs = []" by (cases cs) auto
    with None show ?thesis by (simp add: map_of_update_same)
  next
    case (Some k)
    have "lookup k cs \<noteq> None \<or> (cs \<noteq> [] \<and> (\<exists>es. lookup k (butlast cs) = Some (Dir es)))"
      using 3(2) Some by (cases cs) auto
    then show ?thesis using 3(1) [OF Some] Some by (simp add: map_of_update_same)
  qed
qed

lemma lookup_put_same:
  "lookup t q \<noteq> None \<or> (q \<noteq> [] \<and> (\<exists>es. lookup t (butlast q) = Some (Dir es)))
   \<Longrightarrow> lookup (put t q m) q = Some m"
  using lookup_put_below [of t q m "[]"] by simp

lemma lookup_put_file_kept:
  "lookup t r = Some (File d s) \<Longrightarrow> r \<noteq> q \<Longrightarrow> \<forall>es. lookup t q \<noteq> Some (Dir es)
   \<Longrightarrow> lookup (put t q m) r = Some (File d s)"
proof (induction t q m arbitrary: r rule: put.induct)
  case (1 n m)
  then show ?case by (cases n; cases r) auto
next
  case (2 d' t' c cs m)
  then show ?case by simp
next
  case (3 es c cs m)
  show ?case
  proof (cases r)
    case Nil
    with 3 show ?thesis by simp
  next
    case (Cons c' rs)
    show ?thesis
    proof (cases "c' = c")
      case False
      with 3(2) Cons show ?thesis
        by (auto simp: map_of_update_other split: option.splits)
    next
      case True
      with 3(2) Cons obtain k where k: "map_of es c = Some k" "lookup k rs = Some (File d s)"
        by (auto split: option.splits)
      have "rs \<noteq> cs" using 3(3) Cons True by simp
      moreover have "\<forall>es. lookup k cs \<noteq> Some (Dir es)" using 3(4) k by simp
      ultimately have "lookup (put k cs m) rs = Some (File d s)"
        using 3(1) [OF k(1) k(2)] by simp
      then show ?thesis using k Cons True by (simp add: map_of_update_same)
    qed
  qed
qed

lemma lookup_put_dir_file_iff:
  "lookup t q = None \<Longrightarrow>
   (lookup (put t q (Dir [])) r = Some (File d s)) = (lookup t r = Some (File d s))"
proof (induction t q "Dir []" arbitrary: r rule: put.induct)
  case (1 n)
  then show ?case by simp
next
  case (2 d' t' c cs)
  show ?case by simp
next
  case (3 es c cs)
  show ?case
  proof (cases r)
    case Nil
    then show ?thesis by (simp split: option.splits)
  next
    case (Cons c' rs)
    show ?thesis
    proof (cases "c' = c")
      case False
      then show ?thesis using Cons
        by (auto simp: map_of_update_other split: option.splits)
    next
      case True
      show ?thesis
      proof (cases "map_of es c")
        case None
        then show ?thesis using Cons True
          by (cases rs) (auto simp: map_of_update_same)
      next
        case (Some k)
        then have "lookup k cs = None" using 3(2) by simp
        from 3(1) [OF Some this, of rs] show ?thesis
          using Some Cons True by (simp add: map_of_update_same)
      qed
    qed
  qed
qed

subsection \<open>Frame properties of the file operations\<close>

lemma resolve_cwd: "cwd w' = cwd w \<Longrightarrow> resolve w' p = resolve w p"
  by (simp add: resolve_def)

lemma mkdir_chain_frame:
  "mkdir_chain p pre cs w = (r, w') \<Longrightarrow>
     cwd w' = cwd w \<and> clock w' = clock w \<and> faults w' = faults w"
proof (induction cs arbitrary: pre w)
  case Nil
  then show ?case by simp
next
  case (Cons c cs)
  show ?case
  proof (cases "lookup (tree w) (pre @ [c])")
    case None
    show ?thesis
    proof (cases "faults w OpMkdir (pre @ [c])")
      case (Some e)
      with None Cons.prems show ?thesis by simp
    next
      case nofault: None
      show ?thesis
      proof (cases "lookup (tree w) pre")
        case None
        with \<open>lookup (tree w) (pre @ [c]) = None\<close> nofault Cons.prems show ?thesis by simp
      next
        case (Some n)
        show ?thesis
        proof (cases n)
          case (File d t)
          with Some \<open>lookup (tree w) (pre @ [c]) = None\<close> nofault Cons.prems show ?thesis by simp
        next
          case (Dir es)
          with Some \<open>lookup (tree w) (pre @ [c]) = None\<close> nofault Cons.prems
          have "mkdir_chain p (pre @ [c]) cs (w\<lparr>tree := put (tree w) (pre @ [c]) (Dir [])\<rparr>) = (r, w')"
            by simp
          from Cons.IH [OF this] show ?thesis by simp
        qed
      qed
    qed
  next
    case (Some n)
    show ?thesis
    proof (cases n)
      case (File d t)
      with Some Cons.prems show ?thesis by auto
    next
      case (Dir es)
      with Some Cons.prems have "mkdir_chain p (pre @ [c]) cs w = (r, w')" by simp
      from Cons.IH [OF this] show ?thesis .
    qed
  qed
qed

lemma mkdir_chain_files:
  "mkdir_chain p pre cs w = (r, w') \<Longrightarrow>
     (lookup (tree w') x = Some (File d s)) = (lookup (tree w) x = Some (File d s))"
proof (induction cs arbitrary: pre w)
  case Nil
  then show ?case by simp
next
  case (Cons c cs)
  show ?case
  proof (cases "lookup (tree w) (pre @ [c])")
    case None
    show ?thesis
    proof (cases "faults w OpMkdir (pre @ [c])")
      case (Some e)
      with None Cons.prems show ?thesis by simp
    next
      case nofault: None
      show ?thesis
      proof (cases "lookup (tree w) pre")
        case None
        with \<open>lookup (tree w) (pre @ [c]) = None\<close> nofault Cons.prems show ?thesis by simp
      next
        case (Some n)
        show ?thesis
        proof (cases n)
          case (File d t)
          with Some \<open>lookup (tree w) (pre @ [c]) = None\<close> nofault Cons.prems show ?thesis by simp
        next
          case (Dir es)
          with Some \<open>lookup (tree w) (pre @ [c]) = None\<close> nofault Cons.prems
          have "mkdir_chain p (pre @ [c]) cs (w\<lparr>tree := put (tree w) (pre @ [c]) (Dir [])\<rparr>) = (r, w')"
            by simp
          from Cons.IH [OF this] show ?thesis
            using lookup_put_dir_file_iff [OF \<open>lookup (tree w) (pre @ [c]) = None\<close>] by simp
        qed
      qed
    qed
  next
    case (Some n)
    show ?thesis
    proof (cases n)
      case (File d t)
      with Some Cons.prems show ?thesis by auto
    next
      case (Dir es)
      with Some Cons.prems have "mkdir_chain p (pre @ [c]) cs w = (r, w')" by simp
      from Cons.IH [OF this] show ?thesis .
    qed
  qed
qed

lemma ensure_parent_dir_frame:
  "ensure_parent_dir path w = (r, w') \<Longrightarrow>
     cwd w' = cwd w \<and> clock w' = clock w \<and> faults w' = faults w"
  by (auto simp: ensure_parent_dir_def os_makedirs_def Let_def split: if_splits
           dest: mkdir_chain_frame)

lemma ensure_parent_dir_files:
  "ensure_parent_dir path w = (r, w') \<Longrightarrow>
     (lookup (tree w') x = Some (File d s)) = (lookup (tree w) x = Some (File d s))"
  by (auto simp: ensure_parent_dir_def os_makedirs_def Let_def split: if_splits
           dest: mkdir_chain_files)

lemma node_at_Inr: "node_at w p = Inr n \<Longrightarrow> p \<noteq> [] \<and> lookup (tree w) (resolve w p) = Some n"
  by (auto simp: node_at_def split: if_splits option.splits)

lemma open_rb_Inr:
  "open_rb w p = Inr r \<Longrightarrow>
     r = resolve w p \<and> p \<noteq> [] \<and> faults w OpOpenRead r = None
     \<and> (\<exists>d t. lookup (tree w) r = Some (File d t))"
  by (auto simp: open_rb_def split: option.splits sum.splits node.splits dest: node_at_Inr)

lemma open_wb_Inr:
  assumes "open_wb w p = Inr (h, w2)"
  shows "h = resolve w p \<and> cwd w2 = cwd w \<and> clock w2 = clock w \<and> faults w2 = faults w
     \<and> (\<exists>t. lookup (tree w2) h = Some (File [] t))
     \<and> (\<forall>es. lookup (tree w) h \<noteq> Some (Dir es))
     \<and> (\<forall>x d s. x \<noteq> h \<longrightarrow> lookup (tree w) x = Some (File d s)
            \<longrightarrow> lookup (tree w2) x = Some (File d s))"
proof (cases "lookup (tree w) (resolve w p)")
  case None
  with assms obtain es where es: "lookup (tree w) (butlast (resolve w p)) = Some (Dir es)"
    and h: "h = resolve w p"
    and w2: "w2 = w\<lparr>tree := put (tree w) (resolve w p) (File [] (clock w, clock w))\<rparr>"
    by (auto simp: open_wb_def split: option.splits if_splits node.splits)
  have ne: "resolve w p \<noteq> []" using None by (cases "resolve w p") auto
  have "lookup (tree w2) h = Some (File [] (clock w, clock w))"
    using lookup_put_same [of "tree w" "resolve w p"] es ne h w2 by simp
  moreover have "\<forall>x d s. x \<noteq> h \<longrightarrow> lookup (tree w) x = Some (File d s)
            \<longrightarrow> lookup (tree w2) x = Some (File d s)"
    using lookup_put_file_kept [of "tree w" _ _ _ "resolve w p"] None h w2 by simp
  ultimately show ?thesis using h w2 None by simp
next
  case (Some n)
  with assms obtain d t where n: "n = File d t"
    and h: "h = resolve w p"
    and w2: "w2 = w\<lparr>tree := put (tree w) (resolve w p) (File [] (fst t, clock w))\<rparr>"
    by (auto simp: open_wb_def split: option.splits if_splits node.splits)
  have "lookup (tree w2) h = Some (File [] (fst t, clock w))"
    using lookup_put_same [of "tree w" "resolve w p"] Some h w2 by simp
  moreover have "\<forall>x d s. x \<noteq> h \<longrightarrow> lookup (tree w) x = Some (File d s)
            \<longrightarrow> lookup (tree w2) x = Some (File d s)"
    using lookup_put_file_kept [of "tree w" _ _ _ "resolve w p"] Some n h w2 by simp
  ultimately show ?thesis using h w2 Some n by simp
qed

declare copy_chunks.simps [simp del]

lemma copy_chunks_positive:
  "0 < n \<Longrightarrow> copy_chunks None None n data out = (None, out @ data)"
proof (induction "length data" arbitrary: data out rule: less_induct)
  case less
  show ?case
  proof (cases "data = []")
    case True
    then show ?thesis using less.prems by (subst copy_chunks.simps) (simp add: file_read_def)
  next
    case False
    have pos: "0 < nat n" using less.prems by simp
    have "length (drop (length (take (nat n) data)) data) < length data"
      using False pos by (cases data) auto
    from less.hyps [OF this less.prems, of "out @ take (nat n) data"]
    have "copy_chunks None None n (drop (length (take (nat n) data)) data) (out @ take (nat n) data)
        = (None, out @ data)"
      by (simp add: min_def)
    moreover have "take (nat n) data \<noteq> []" using False pos by (cases data) auto
    ultimately show ?thesis
      using less.prems
      by (subst copy_chunks.simps) (simp add: file_read_def)
  qed
qed

lemma copy_chunks_zero: "copy_chunks None wfault 0 data out = (None, out)"
  by (subst copy_chunks.simps) (simp add: file_read_def)

lemma copy_chunks_rfault: "copy_chunks (Some e) wfault n data out = (Some e, out)"
  by (subst copy_chunks.simps) simp

lemma copy_chunks_unfold:
  "copy_chunks None wfault n data out =
     (case file_read data n of
        Inl e \<Rightarrow> (Some e, out)
      | Inr buf \<Rightarrow>
          if buf = [] then (None, out)
          else (case wfault of
                  Some e \<Rightarrow> (Some e, out)
                | None \<Rightarrow> copy_chunks None wfault n (drop (length buf) data) (out @ buf)))"
  by (subst copy_chunks.simps) simp

lemma copy_chunks_success:
  "copy_chunks rfault wfault n data out = (None, out') \<Longrightarrow>
     rfault = None \<and> - 1 \<le> n \<and> (n = 0 \<longrightarrow> out' = out) \<and> (n \<noteq> 0 \<longrightarrow> out' = out @ data)"
proof (induction "length data" arbitrary: data out rule: less_induct)
  case less
  have rf: "rfault = None"
    using less.prems by (cases rfault) (auto simp: copy_chunks_rfault)
  have n: "- 1 \<le> n"
    using less.prems rf
    by (auto simp: copy_chunks_unfold file_read_def split: if_splits)
  show ?case
  proof (cases "n = 0")
    case True
    then show ?thesis using less.prems rf n by (simp add: copy_chunks_zero)
  next
    case False
    define buf where "buf = (if n = - 1 then data else take (nat n) data)"
    have rd: "file_read data n = Inr buf" using n by (auto simp: file_read_def buf_def)
    show ?thesis
    proof (cases "buf = []")
      case True
      then have "data = []" using False n by (cases data) (auto simp: buf_def split: if_splits)
      then show ?thesis
        using less.prems rf n rd True
        by (simp add: copy_chunks_unfold)
    next
      case bne: False
      then have dne: "data \<noteq> []" by (auto simp: buf_def split: if_splits)
      have wf: "wfault = None"
        using less.prems rf rd bne
        by (cases wfault) (auto simp: copy_chunks_unfold)
      have step: "copy_chunks rfault wfault n (drop (length buf) data) (out @ buf) = (None, out')"
        using less.prems rf rd bne wf
        by (simp add: copy_chunks_unfold)
      have "length (drop (length buf) data) < length data"
        using bne dne by (cases buf) auto
      from less.hyps [OF this step] False
      have "out' = (out @ buf) @ drop (length buf) data" by simp
      moreover have "buf @ drop (length buf) data = data"
        by (auto simp: buf_def min_def)
      ultimately show ?thesis using rf n False by simp
    qed
  qed
qed


lemma file_content_lookup: "lookup (tree w) x = Some (File d t) \<Longrightarrow> file_content w x = d"
  by (simp add: file_content_def)

lemma write_content_at:
  "lookup (tree w) h \<noteq> None \<Longrightarrow>
     \<exists>t. lookup (tree (write_content w h out)) h = Some (File out t)"
  by (simp add: write_content_def lookup_put_same)

lemma write_content_frame:
  "cwd (write_content w h out) = cwd w \<and> clock (write_content w h out) = clock w
     \<and> faults (write_content w h out) = faults w"
  by (simp add: write_content_def)

lemma os_utime_at:
  assumes "os_utime w p ts = Inr w'" and "lookup (tree w) (resolve w p) = Some (File d t)"
  shows "lookup (tree w') (resolve w p) = Some (File d ts)"
proof -
  have "node_at w p = Inr (File d t)"
    using assms by (auto simp: os_utime_def node_at_def split: option.splits sum.splits if_splits)
  then have "w' = w\<lparr>tree := put (tree w) (resolve w p) (File d ts)\<rparr>"
    using assms(1) by (auto simp: os_utime_def split: option.splits)
  then show ?thesis using assms(2) by (simp add: lookup_put_same)
qed



lemma copy_file_chunked_parts:
  assumes "copy_file src dst True n w = (None, w')"
  shows "\<exists>w1 rh h w2 out. ensure_parent_dir dst w = (None, w1)
    \<and> open_rb w1 src = Inr rh
    \<and> open_wb w1 dst = Inr (h, w2)
    \<and> copy_chunks (faults w2 OpRead rh) (faults w2 OpWrite h) n (file_content w2 rh) []
               = (None, out)
    \<and> (w' = write_content w2 h out
              \<or> (\<exists>st. os_stat (write_content w2 h out) src = Inr st
                    \<and> os_utime (write_content w2 h out) dst (st_times st) = Inr w'))"
proof -
  obtain r1 w1 where e0: "ensure_parent_dir dst w = (r1, w1)"
    by (cases "ensure_parent_dir dst w")
  have r1: "r1 = None"
    using assms e0 by (cases r1) (simp_all add: copy_file_def)
  have e: "ensure_parent_dir dst w = (None, w1)" using e0 r1 by simp
  have a1: "(case open_rb w1 src of
               Inl e \<Rightarrow> (Some e, w1)
             | Inr r \<Rightarrow>
                 (case open_wb w1 dst of
                    Inl e \<Rightarrow> (Some e, w1)
                  | Inr (h, w2) \<Rightarrow>
                      (case copy_chunks (faults w2 OpRead r) (faults w2 OpWrite h) n
                              (file_content w2 r) [] of
                         (Some e, out) \<Rightarrow> (Some e, write_content w2 h out)
                       | (None, out) \<Rightarrow>
                           (case os_stat (write_content w2 h out) src of
                              Inl e \<Rightarrow> (None, write_content w2 h out)
                            | Inr st \<Rightarrow>
                                (case os_utime (write_content w2 h out) dst (st_times st) of
                                   Inl e \<Rightarrow> (None, write_content w2 h out)
                                 | Inr w4 \<Rightarrow> (None, w4)))))) = (None, w')"
    using assms e by (simp add: copy_file_def)
  obtain rh where o1: "open_rb w1 src = Inr rh"
    using a1 by (cases "open_rb w1 src") simp_all
  have a2: "(case open_wb w1 dst of
                    Inl e \<Rightarrow> (Some e, w1)
                  | Inr (h, w2) \<Rightarrow>
                      (case copy_chunks (faults w2 OpRead rh) (faults w2 OpWrite h) n
                              (file_content w2 rh) [] of
                         (Some e, out) \<Rightarrow> (Some e, write_content w2 h out)
                       | (None, out) \<Rightarrow>
                           (case os_stat (write_content w2 h out) src of
                              Inl e \<Rightarrow> (None, write_content w2 h out)
                            | Inr st \<Rightarrow>
                                (case os_utime (write_content w2 h out) dst (st_times st) of
                                   Inl e \<Rightarrow> (None, write_content w2 h out)
                                 | Inr w4 \<Rightarrow> (None, w4))))) = (None, w')"
    using a1 o1 by simp
  obtain h w2 where o2: "open_wb w1 dst = Inr (h, w2)"
    using a2 by (cases "open_wb w1 dst") auto
  obtain res out where cc0: "copy_chunks (faults w2 OpRead rh) (faults w2 OpWrite h) n
      (file_content w2 rh) [] = (res, out)"
    by (cases "copy_chunks (faults w2 OpRead rh) (faults w2 OpWrite h) n (file_content w2 rh) []")
  have res: "res = None" using a2 o2 cc0 by (cases res) simp_all
  have cc: "copy_chunks (faults w2 OpRead rh) (faults w2 OpWrite h) n (file_content w2 rh) []
      = (None, out)"
    using cc0 res by simp
  have fin: "w' = write_content w2 h out
              \<or> (\<exists>st. os_stat (write_content w2 h out) src = Inr st
                    \<and> os_utime (write_content w2 h out) dst (st_times st) = Inr w')"
    using a2 o2 cc by (auto split: sum.splits)
  show ?thesis using e o1 o2 cc fin by blast
qed


lemma os_utime_cwd: "os_utime w p ts = Inr w' \<Longrightarrow> cwd w' = cwd w"
  by (auto simp: os_utime_def split: option.splits sum.splits node.splits if_splits)

lemma copy_file_chunked_success:
  assumes "copy_file src dst True n w = (None, w')"
  shows "- 1 \<le> n
    \<and> cwd w' = cwd w
    \<and> (\<exists>d t. lookup (tree w) (resolve w src) = Some (File d t))
    \<and> (\<exists>t. lookup (tree w') (resolve w dst) =
             Some (File (if resolve w src = resolve w dst \<or> n = 0 then []
                         else file_content w (resolve w src)) t))"
proof -
  from copy_file_chunked_parts [OF assms]
  obtain w1 rh h w2 out where e: "ensure_parent_dir dst w = (None, w1)"
    and o1: "open_rb w1 src = Inr rh"
    and o2: "open_wb w1 dst = Inr (h, w2)"
    and cc: "copy_chunks (faults w2 OpRead rh) (faults w2 OpWrite h) n (file_content w2 rh) []
               = (None, out)"
    and fin: "w' = write_content w2 h out
              \<or> (\<exists>st. os_stat (write_content w2 h out) src = Inr st
                    \<and> os_utime (write_content w2 h out) dst (st_times st) = Inr w')"
    by blast
  let ?w3 = "write_content w2 h out"
  have cw1: "cwd w1 = cwd w" using ensure_parent_dir_frame [OF e] by blast
  have rh1: "rh = resolve w1 src" using open_rb_Inr [OF o1] by blast
  have rh: "rh = resolve w src" using rh1 resolve_cwd [OF cw1, of src] by simp
  obtain d t where f1: "lookup (tree w1) rh = Some (File d t)"
    using open_rb_Inr [OF o1] by blast
  have f0: "lookup (tree w) rh = Some (File d t)"
    using ensure_parent_dir_files [OF e, of rh d t] f1 by blast
  note wb = open_wb_Inr [OF o2]
  have h1: "h = resolve w1 dst" using wb by blast
  have h: "h = resolve w dst" using h1 resolve_cwd [OF cw1, of dst] by simp
  have cw2: "cwd w2 = cwd w" using wb cw1 by metis
  obtain t2 where h2: "lookup (tree w2) h = Some (File [] t2)" using wb by blast
  have keep: "rh \<noteq> h \<Longrightarrow> lookup (tree w2) rh = Some (File d t)"
    using wb f1 by blast
  have data: "file_content w2 rh = (if rh = h then [] else d)"
  proof (cases "rh = h")
    case True
    then show ?thesis using file_content_lookup [OF h2] by simp
  next
    case False
    then show ?thesis using file_content_lookup [OF keep [OF False]] by simp
  qed
  note cs = copy_chunks_success [OF cc]
  have n: "- 1 \<le> n" using cs by blast
  have out: "out = (if rh = h \<or> n = 0 then [] else d)"
  proof (cases "n = 0")
    case True
    then have "out = []" using cs by blast
    then show ?thesis using True by simp
  next
    case False
    then have "out = [] @ file_content w2 rh" using cs by blast
    then show ?thesis using False data by simp
  qed
  have h2n: "lookup (tree w2) h \<noteq> None" using h2 by simp
  obtain t3 where h3: "lookup (tree ?w3) h = Some (File out t3)"
    using write_content_at [OF h2n, of out] by blast
  have cw3: "cwd ?w3 = cwd w" using write_content_frame [of w2 h out] cw2 by simp
  have res3: "resolve ?w3 dst = h" using h resolve_cwd [OF cw3, of dst] by simp
  have post: "cwd w' = cwd w \<and> (\<exists>t. lookup (tree w') h = Some (File out t))"
    using fin
  proof
    assume "w' = ?w3"
    then show ?thesis using h3 cw3 by blast
  next
    assume "\<exists>st. os_stat ?w3 src = Inr st \<and> os_utime ?w3 dst (st_times st) = Inr w'"
    then obtain st where u: "os_utime ?w3 dst (st_times st) = Inr w'" by blast
    have h3': "lookup (tree ?w3) (resolve ?w3 dst) = Some (File out t3)"
      using h3 res3 by simp
    have "lookup (tree w') (resolve ?w3 dst) = Some (File out (st_times st))"
      using os_utime_at [OF u h3'] .
    then have "lookup (tree w') h = Some (File out (st_times st))" using res3 by simp
    moreover have "cwd w' = cwd ?w3" using os_utime_cwd [OF u] .
    ultimately show ?thesis using cw3 by simp
  qed
  have fc: "file_content w (resolve w src) = d"
    using file_content_lookup [of w rh d t] f0 rh by simp
  have c3: "\<exists>d t. lookup (tree w) (resolve w src) = Some (File d t)"
    using f0 rh by blast
  have out': "out = (if resolve w src = resolve w dst \<or> n = 0 then []
                         else file_content w (resolve w src))"
    using out rh h fc by simp
  have c4: "\<exists>t. lookup (tree w') (resolve w dst) =
             Some (File (if resolve w src = resolve w dst \<or> n = 0 then []
                         else file_content w (resolve w src)) t)"
    using post h out' by simp
  show ?thesis using n post c3 c4 by blast
qed

subsection \<open>Copying one file\<close>

lemma demo_zero:
  "copy_file ''/A/a.txt'' ''/B/n.txt'' True 0 demo_world =
     (None, snd (copy_file ''/A/a.txt'' ''/B/n.txt'' True 0 demo_world))"
  by (simp add: model_defs demo_world_def copy_chunks.simps)

lemma demo_two:
  "copy_file ''/A/a.txt'' ''/B/n.txt'' True 2 demo_world =
     (None, snd (copy_file ''/A/a.txt'' ''/B/n.txt'' True 2 demo_world))"
  by (simp add: model_defs demo_world_def copy_chunks.simps)

lemma demo_paths:
  "resolve demo_world ''/B/n.txt'' = [''B'', ''n.txt'']
   \<and> resolve demo_world ''/A/a.txt'' = [''A'', ''a.txt'']
   \<and> file_content demo_world [''A'', ''a.txt''] = [1, 2, 3]"
  by (simp add: model_defs demo_world_def)

lemma copy_file_chunked_zero_succeeds:
  assumes "fst (copy_file src dst True n w) = None"
  shows "fst (copy_file src dst True 0 w) = None"
proof -
  have "copy_file src dst True n w = (None, snd (copy_file src dst True n w))"
    using assms by (simp add: prod_eq_iff)
  from copy_file_chunked_parts [OF this]
  obtain w1 rh h w2 out where e: "ensure_parent_dir dst w = (None, w1)"
    and o1: "open_rb w1 src = Inr rh"
    and o2: "open_wb w1 dst = Inr (h, w2)"
    and cc: "copy_chunks (faults w2 OpRead rh) (faults w2 OpWrite h) n (file_content w2 rh) []
               = (None, out)"
    by blast
  have rf: "faults w2 OpRead rh = None" using copy_chunks_success [OF cc] by blast
  show ?thesis
    by (simp add: copy_file_def e o1 o2 rf copy_chunks_zero split: sum.splits)
qed

lemma demo_minus_one:
  "copy_file ''/A/a.txt'' ''/B/n.txt'' True (- 1) demo_world =
     (None, snd (copy_file ''/A/a.txt'' ''/B/n.txt'' True (- 1) demo_world))
   \<and> file_content (snd (copy_file ''/A/a.txt'' ''/B/n.txt'' True (- 1) demo_world))
        [''B'', ''n.txt''] = [1, 2, 3]"
  by (simp add: model_defs demo_world_def copy_chunks.simps)

lemma demo_self_two:
  "fst (copy_file ''/A/a.txt'' ''/A/a.txt'' True 2 demo_world) = None
   \<and> file_content (snd (copy_file ''/A/a.txt'' ''/A/a.txt'' True 2 demo_world))
        [''A'', ''a.txt''] = []"
  by (simp add: model_defs demo_world_def copy_chunks.simps)

lemma demo_minus_two:
  "fst (copy_file ''/A/a.txt'' ''/B/n.txt'' True (- 2) demo_world)
     = Some (ValueError ''read length must be non-negative or -1'')"
  by (simp add: model_defs demo_world_def copy_chunks.simps)

text \<open>
  Claim C10, as stated, fails in two respects. The content guarantee does not hold
  \<^emph>\<open>only\<close> under \<open>chunk_size > 0\<close>: with \<open>chunk_size = -1\<close> the call \<^verbatim>\<open>read(-1)\<close>
  returns the whole file, and the destination receives the source's content. And
  \<open>chunk_size > 0\<close> does not suffice for it: when source and destination are the same
  file the call returns normally with \<open>chunk_size = 2\<close> and leaves the file, which held
  three bytes, empty.
\<close>

theorem copy_file_chunk_size_counterexample:
  "\<not> 0 < (- 1 :: int)
   \<and> fst (copy_file ''/A/a.txt'' ''/B/n.txt'' True (- 1) demo_world) = None
   \<and> file_content (snd (copy_file ''/A/a.txt'' ''/B/n.txt'' True (- 1) demo_world))
        [''B'', ''n.txt''] = [1, 2, 3]
   \<and> file_content demo_world [''A'', ''a.txt''] = [1, 2, 3]
   \<and> 0 < (2 :: int)
   \<and> fst (copy_file ''/A/a.txt'' ''/A/a.txt'' True 2 demo_world) = None
   \<and> file_content (snd (copy_file ''/A/a.txt'' ''/A/a.txt'' True 2 demo_world))
        [''A'', ''a.txt''] = []"
proof -
  have "fst (copy_file ''/A/a.txt'' ''/B/n.txt'' True (- 1) demo_world) = None"
    using demo_minus_one by (metis fst_conv)
  then show ?thesis using demo_minus_one demo_self_two demo_paths by simp
qed

text \<open>
  Claim C10, amended. The file system of the model is a tree without links, so two paths
  name the same file exactly when they resolve to the same location. Whenever chunked
  \<^verbatim>\<open>copy_file\<close> returns normally with \<open>chunk_size \<noteq> 0\<close> (that is \<open>chunk_size > 0\<close> or
  \<open>chunk_size = -1\<close>; it raises for \<open>chunk_size < -1\<close>) and source and destination are
  different files, the destination holds the source's content. With \<open>chunk_size = 0\<close>
  the first read returns no bytes and the loop ends at once: the call returns normally
  whenever it does so for some chunk size, and leaves the destination an empty file,
  also for a non-empty source.
\<close>

theorem copy_file_chunk_size:
  "(copy_file src dst True 0 w = (None, w') \<longrightarrow>
      (\<exists>t. lookup (tree w') (resolve w dst) = Some (File [] t)))
   \<and> (fst (copy_file src dst True n w) = None \<longrightarrow> fst (copy_file src dst True 0 w) = None)
   \<and> (n \<noteq> 0 \<and> copy_file src dst True n w = (None, w') \<and> resolve w src \<noteq> resolve w dst \<longrightarrow>
        (\<exists>t. lookup (tree w') (resolve w dst) = Some (File (file_content w (resolve w src)) t)))
   \<and> (n < - 1 \<longrightarrow> fst (copy_file src dst True n w) \<noteq> None)"
proof -
  have a: "copy_file src dst True 0 w = (None, w') \<longrightarrow>
      (\<exists>t. lookup (tree w') (resolve w dst) = Some (File [] t))"
  proof
    assume "copy_file src dst True 0 w = (None, w')"
    from copy_file_chunked_success [OF this] show "\<exists>t. lookup (tree w') (resolve w dst) = Some (File [] t)"
      by simp
  qed
  have b: "fst (copy_file src dst True n w) = None \<longrightarrow> fst (copy_file src dst True 0 w) = None"
    using copy_file_chunked_zero_succeeds by blast
  have c: "n \<noteq> 0 \<and> copy_file src dst True n w = (None, w') \<and> resolve w src \<noteq> resolve w dst \<longrightarrow>
        (\<exists>t. lookup (tree w') (resolve w dst) = Some (File (file_content w (resolve w src)) t))"
  proof
    assume h: "n \<noteq> 0 \<and> copy_file src dst True n w = (None, w') \<and> resolve w src \<noteq> resolve w dst"
    then have s: "copy_file src dst True n w = (None, w')" by blast
    from copy_file_chunked_success [OF s] h
    show "\<exists>t. lookup (tree w') (resolve w dst) = Some (File (file_content w (resolve w src)) t)"
      by simp
  qed
  have d: "n < - 1 \<longrightarrow> fst (copy_file src dst True n w) \<noteq> None"
  proof
    assume n: "n < - 1"
    show "fst (copy_file src dst True n w) \<noteq> None"
    proof
      assume "fst (copy_file src dst True n w) = None"
      then have "copy_file src dst True n w = (None, snd (copy_file src dst True n w))"
        by (simp add: prod_eq_iff)
      from copy_file_chunked_success [OF this] have "- 1 \<le> n" by blast
      then show False using n by simp
    qed
  qed
  show ?thesis using a b c d by blast
qed

theorem copy_file_chunk_size_witness:
  "fst (copy_file ''/A/a.txt'' ''/B/n.txt'' True 0 demo_world) = None
   \<and> file_content demo_world [''A'', ''a.txt''] = [1, 2, 3]
   \<and> file_content (snd (copy_file ''/A/a.txt'' ''/B/n.txt'' True 0 demo_world)) [''B'', ''n.txt''] = []
   \<and> file_content (snd (copy_file ''/A/a.txt'' ''/B/n.txt'' True 2 demo_world)) [''B'', ''n.txt'']
       = [1, 2, 3]
   \<and> file_content (snd (copy_file ''/A/a.txt'' ''/B/n.txt'' True (- 1) demo_world)) [''B'', ''n.txt'']
       = [1, 2, 3]
   \<and> fst (copy_file ''/A/a.txt'' ''/B/n.txt'' True (- 2) demo_world)
       = Some (ValueError ''read length must be non-negative or -1'')"
proof -
  note t0 = copy_file_chunk_size [of "''/A/a.txt''" "''/B/n.txt''" demo_world
      "snd (copy_file ''/A/a.txt'' ''/B/n.txt'' True 0 demo_world)" 2]
  note t2 = copy_file_chunk_size [of "''/A/a.txt''" "''/B/n.txt''" demo_world
      "snd (copy_file ''/A/a.txt'' ''/B/n.txt'' True 2 demo_world)" 2]
  have z: "\<exists>t. lookup (tree (snd (copy_file ''/A/a.txt'' ''/B/n.txt'' True 0 demo_world)))
              (resolve demo_world ''/B/n.txt'') = Some (File [] t)"
    using t0 demo_zero by blast
  have ne: "resolve demo_world ''/A/a.txt'' \<noteq> resolve demo_world ''/B/n.txt''"
    using demo_paths by simp
  have p: "\<exists>t. lookup (tree (snd (copy_file ''/A/a.txt'' ''/B/n.txt'' True 2 demo_world)))
              (resolve demo_world ''/B/n.txt'')
            = Some (File (file_content demo_world (resolve demo_world ''/A/a.txt'')) t)"
    using t2 demo_two ne by simp
  have s: "fst (copy_file ''/A/a.txt'' ''/B/n.txt'' True 0 demo_world) = None"
    using demo_zero by (metis fst_conv)
  have z': "file_content (snd (copy_file ''/A/a.txt'' ''/B/n.txt'' True 0 demo_world)) [''B'', ''n.txt''] = []"
    using z demo_paths file_content_lookup by auto
  have p': "file_content (snd (copy_file ''/A/a.txt'' ''/B/n.txt'' True 2 demo_world)) [''B'', ''n.txt'']
       = [1, 2, 3]"
    using p demo_paths file_content_lookup by auto
  show ?thesis using s z' p' demo_paths demo_minus_one demo_minus_two by blast
qed

text \<open>
  Claim C3 fails on the code. When source and destination are the same file the chunked
  mode opens the file for writing, which truncates it, copies nothing and returns
  normally: the content is lost. The fast mode raises \<^verbatim>\<open>SameFileError\<close> and leaves the
  content in place. When the destination is an existing directory the fast mode copies
  into it under the source's base name and the chunked mode raises
  \<^verbatim>\<open>IsADirectoryError\<close>.
\<close>

theorem copy_file_modes_differ:
  "fst (copy_file ''/A/a.txt'' ''/A/a.txt'' True DEFAULT_CHUNK_SIZE demo_world) = None
   \<and> file_content (snd (copy_file ''/A/a.txt'' ''/A/a.txt'' True DEFAULT_CHUNK_SIZE demo_world))
        [''A'', ''a.txt''] = []
   \<and> fst (copy_file ''/A/a.txt'' ''/A/a.txt'' False DEFAULT_CHUNK_SIZE demo_world)
        = Some (SameFileError ''/A/a.txt'' ''/A/a.txt'')
   \<and> file_content (snd (copy_file ''/A/a.txt'' ''/A/a.txt'' False DEFAULT_CHUNK_SIZE demo_world))
        [''A'', ''a.txt''] = [1, 2, 3]
   \<and> file_content demo_world [''A'', ''a.txt''] = [1, 2, 3]
   \<and> fst (copy_file ''/A/a.txt'' ''/B'' True DEFAULT_CHUNK_SIZE demo_world)
        = Some (IsADirectoryError ''/B'')
   \<and> fst (copy_file ''/A/a.txt'' ''/B'' False DEFAULT_CHUNK_SIZE demo_world) = None
   \<and> file_content (snd (copy_file ''/A/a.txt'' ''/B'' False DEFAULT_CHUNK_SIZE demo_world))
        [''B'', ''a.txt''] = [1, 2, 3]"
  by (simp add: model_defs demo_world_def copy_chunks.simps Let_def)

text \<open>
  Claim C4 fails on the code: \<^verbatim>\<open>os.walk\<close> is called without \<^verbatim>\<open>onerror\<close>, so the error
  of scanning the root is ignored and the walk yields nothing. Indexing the missing
  directory \<^verbatim>\<open>/missing\<close>, and indexing \<^verbatim>\<open>/A\<close> when it cannot be read, return the
  empty set.
\<close>

theorem list_files_recursive_bad_root_counterexample:
  "node_at demo_world ''/missing'' = Inl (FileNotFoundError ''/missing'')
   \<and> list_files_recursive demo_world ''/missing'' = Inr {}
   \<and> list_files_recursive
        (demo_world\<lparr>faults := (\<lambda>op loc. if op = OpScandir \<and> loc = [''A'']
                                         then Some (PermissionError ''/A'') else None)\<rparr>) ''/A''
       = Inr {}
   \<and> list_files_recursive demo_world ''/A'' = Inr {''a.txt'', ''sub/b.txt''}"
  by (auto simp: model_defs demo_world_def)

text \<open>
  Claim C4, amended. Indexing a root that does not exist, that is a regular file, or whose
  scan fails, raises nothing and returns the empty set.
\<close>

theorem list_files_recursive_bad_root_empty:
  "(node_at w path = Inl e \<longrightarrow> list_files_recursive w path = Inr {})
   \<and> (node_at w path = Inr (File d t) \<longrightarrow> list_files_recursive w path = Inr {})
   \<and> (faults w OpScandir (resolve w path) = Some e \<longrightarrow> list_files_recursive w path = Inr {})"
proof -
  have a: "node_at w path = Inl e \<longrightarrow> list_files_recursive w path = Inr {}"
    by (simp add: list_files_recursive_def os_walk_def)
  have b: "node_at w path = Inr (File d t) \<longrightarrow> list_files_recursive w path = Inr {}"
    by (simp add: list_files_recursive_def os_walk_def)
  have c: "faults w OpScandir (resolve w path) = Some e \<longrightarrow> list_files_recursive w path = Inr {}"
  proof
    assume f: "faults w OpScandir (resolve w path) = Some e"
    have "os_walk w path = []"
    proof (cases "node_at w path")
      case (Inl x)
      then show ?thesis by (simp add: os_walk_def)
    next
      case (Inr n)
      then show ?thesis using f by (cases n) (simp_all add: os_walk_def)
    qed
    then show "list_files_recursive w path = Inr {}"
      by (simp add: list_files_recursive_def)
  qed
  show ?thesis using a b c by blast
qed

theorem list_files_recursive_bad_root_empty_witness:
  "node_at demo_world ''/missing'' = Inl (FileNotFoundError ''/missing'')
   \<and> list_files_recursive demo_world ''/missing'' = Inr {}"
proof -
  have n: "node_at demo_world ''/missing'' = Inl (FileNotFoundError ''/missing'')"
    by (simp add: model_defs demo_world_def)
  have "list_files_recursive demo_world ''/missing'' = Inr {}"
    using list_files_recursive_bad_root_empty [of demo_world "''/missing''"
        "FileNotFoundError ''/missing''"] n
    by blast
  then show ?thesis using n by blast
qed

subsection \<open>Independence of the timestamp operations\<close>

lemma resolve_faults: "resolve (w\<lparr>faults := g\<rparr>) p = resolve w p"
  by (simp add: resolve_def)

lemma node_at_faults: "node_at (w\<lparr>faults := g\<rparr>) p = node_at w p"
  by (simp add: node_at_def resolve_def)

lemma os_path_exists_faults: "os_path_exists (w\<lparr>faults := g\<rparr>) p = os_path_exists w p"
  by (simp add: os_path_exists_def node_at_faults)

lemma mkdir_chain_faults:
  "\<forall>loc. g OpMkdir loc = faults w OpMkdir loc \<Longrightarrow>
     mkdir_chain p pre cs (w\<lparr>faults := g\<rparr>) =
       (fst (mkdir_chain p pre cs w), (snd (mkdir_chain p pre cs w))\<lparr>faults := g\<rparr>)"
proof (induction cs arbitrary: pre w)
  case Nil
  show ?case by simp
next
  case (Cons c cs)
  show ?case
  proof (cases "lookup (tree w) (pre @ [c])")
    case None
    show ?thesis
    proof (cases "faults w OpMkdir (pre @ [c])")
      case (Some e)
      then show ?thesis using None Cons.prems by simp
    next
      case fnone: None
      show ?thesis
      proof (cases "lookup (tree w) pre")
        case lnone: None
        then show ?thesis using None fnone Cons.prems by simp
      next
        case (Some m)
        show ?thesis
        proof (cases m)
          case (File d t)
          then show ?thesis using None fnone Some Cons.prems by simp
        next
          case (Dir es)
          let ?w = "w\<lparr>tree := put (tree w) (pre @ [c]) (Dir [])\<rparr>"
          have g: "\<forall>loc. g OpMkdir loc = faults ?w OpMkdir loc" using Cons.prems by simp
          have sw: "?w\<lparr>faults := g\<rparr> = w\<lparr>faults := g, tree := put (tree w) (pre @ [c]) (Dir [])\<rparr>"
            by simp
          show ?thesis
            using None fnone Some Dir Cons.prems Cons.IH [OF g, of "pre @ [c]"] sw by simp
        qed
      qed
    qed
  next
    case (Some m)
    show ?thesis
    proof (cases m)
      case (File d t)
      then show ?thesis using Some by simp
    next
      case (Dir es)
      then show ?thesis using Some Cons.IH [OF Cons.prems, of "pre @ [c]"] by simp
    qed
  qed
qed

lemma ensure_parent_dir_faults:
  "\<forall>loc. g OpMkdir loc = faults w OpMkdir loc \<Longrightarrow>
     ensure_parent_dir path (w\<lparr>faults := g\<rparr>) =
       (fst (ensure_parent_dir path w), (snd (ensure_parent_dir path w))\<lparr>faults := g\<rparr>)"
  by (simp add: ensure_parent_dir_def os_makedirs_def Let_def os_path_exists_faults
      resolve_faults mkdir_chain_faults)

lemma open_rb_faults:
  "\<forall>loc. g OpOpenRead loc = faults w OpOpenRead loc \<Longrightarrow>
     open_rb (w\<lparr>faults := g\<rparr>) p = open_rb w p"
  by (simp add: open_rb_def node_at_faults resolve_faults
      split: option.splits sum.splits node.splits)

lemma open_wb_faults:
  "\<forall>loc. g OpOpenWrite loc = faults w OpOpenWrite loc \<Longrightarrow>
     open_wb (w\<lparr>faults := g\<rparr>) p =
       (case open_wb w p of Inl e \<Rightarrow> Inl e | Inr (h, w2) \<Rightarrow> Inr (h, w2\<lparr>faults := g\<rparr>))"
  by (simp add: open_wb_def resolve_faults split: option.splits node.splits)

lemma file_content_faults: "file_content (w\<lparr>faults := g\<rparr>) loc = file_content w loc"
  by (simp add: file_content_def)

lemma copy_file_chunked_faults:
  assumes g: "\<forall>op loc. op \<noteq> OpStat \<longrightarrow> op \<noteq> OpUtime \<longrightarrow> g op loc = faults w op loc"
  shows "fst (copy_file src dst True n (w\<lparr>faults := g\<rparr>)) = fst (copy_file src dst True n w)"
proof -
  obtain r1 w1 where e: "ensure_parent_dir dst w = (r1, w1)"
    by (cases "ensure_parent_dir dst w")
  have gm: "\<forall>loc. g OpMkdir loc = faults w OpMkdir loc" using g by simp
  have eg: "ensure_parent_dir dst (w\<lparr>faults := g\<rparr>) = (r1, w1\<lparr>faults := g\<rparr>)"
    using ensure_parent_dir_faults [where g = g and w = w and path = dst] gm e by simp
  have f1: "faults w1 = faults w" using ensure_parent_dir_frame [OF e] by blast
  show ?thesis
  proof (cases r1)
    case (Some x)
    then show ?thesis using e eg by (simp add: copy_file_def)
  next
    case None
    have gr: "\<forall>loc. g OpOpenRead loc = faults w1 OpOpenRead loc" using g f1 by simp
    have gw: "\<forall>loc. g OpOpenWrite loc = faults w1 OpOpenWrite loc" using g f1 by simp
    have org: "open_rb (w1\<lparr>faults := g\<rparr>) src = open_rb w1 src"
      using open_rb_faults [where g = g and w = w1 and p = src] gr by blast
    have owg: "open_wb (w1\<lparr>faults := g\<rparr>) dst =
       (case open_wb w1 dst of Inl e \<Rightarrow> Inl e | Inr (h, w2) \<Rightarrow> Inr (h, w2\<lparr>faults := g\<rparr>))"
      using open_wb_faults [where g = g and w = w1 and p = dst] gw by blast
    show ?thesis
    proof (cases "open_rb w1 src")
      case (Inl x)
      then show ?thesis using e eg None org by (simp add: copy_file_def)
    next
      case (Inr rh)
      note o1 = Inr
      show ?thesis
      proof (cases "open_wb w1 dst")
        case (Inl x)
        then show ?thesis using e eg None org o1 owg by (simp add: copy_file_def)
      next
        case (Inr hw)
        obtain h w2 where hw: "hw = (h, w2)" by (cases hw)
        have o2: "open_wb w1 dst = Inr (h, w2)" using Inr hw by simp
        have o2g: "open_wb (w1\<lparr>faults := g\<rparr>) dst = Inr (h, w2\<lparr>faults := g\<rparr>)"
          using owg o2 by simp
        have f2: "faults w2 = faults w" using open_wb_Inr [OF o2] f1 by simp
        have a: "g OpRead rh = faults w2 OpRead rh" using g f2 by simp
        have b: "g OpWrite h = faults w2 OpWrite h" using g f2 by simp
        obtain res out where cc: "copy_chunks (faults w2 OpRead rh) (faults w2 OpWrite h) n
            (file_content w2 rh) [] = (res, out)"
          by (cases "copy_chunks (faults w2 OpRead rh) (faults w2 OpWrite h) n (file_content w2 rh) []")
        have ccg: "copy_chunks (faults (w2\<lparr>faults := g\<rparr>) OpRead rh)
            (faults (w2\<lparr>faults := g\<rparr>) OpWrite h) n (file_content (w2\<lparr>faults := g\<rparr>) rh) []
            = (res, out)"
          using cc a b by (simp add: file_content_faults)
        have l: "fst (copy_file src dst True n w) = res"
          using e None o1 o2 cc by (cases res) (simp_all add: copy_file_def split: sum.splits)
        have r: "fst (copy_file src dst True n (w\<lparr>faults := g\<rparr>)) = res"
          using eg None org o1 o2g ccg
          by (cases res) (simp_all add: copy_file_def split: sum.splits)
        show ?thesis using l r by simp
      qed
    qed
  qed
qed

lemma copy_file_chunked_content:
  assumes "copy_file src dst True n w = (None, w')"
  shows "file_content w' (resolve w dst) =
           (if resolve w src = resolve w dst \<or> n = 0 then [] else file_content w (resolve w src))"
proof -
  from copy_file_chunked_success [OF assms]
  obtain t where "lookup (tree w') (resolve w dst) =
             Some (File (if resolve w src = resolve w dst \<or> n = 0 then []
                         else file_content w (resolve w src)) t)"
    by blast
  then show ?thesis by (rule file_content_lookup)
qed

text \<open>
  Claim C8. In chunked mode the outcome of \<^verbatim>\<open>copy_file\<close> does not depend on whether
  reading the source's timestamps (\<^verbatim>\<open>os.stat\<close>) or applying them (\<^verbatim>\<open>os.utime\<close>)
  fails: for every input, replacing the failures of these two operations by any others
  leaves unchanged what the call raises, and when it raises nothing the destination
  holds the same content.
\<close>

theorem copy_file_timestamps_best_effort:
  assumes "\<forall>op loc. op \<noteq> OpStat \<longrightarrow> op \<noteq> OpUtime \<longrightarrow> g op loc = faults w op loc"
  shows "fst (copy_file src dst True n (w\<lparr>faults := g\<rparr>)) = fst (copy_file src dst True n w)
    \<and> (fst (copy_file src dst True n w) = None \<longrightarrow>
         file_content (snd (copy_file src dst True n (w\<lparr>faults := g\<rparr>))) (resolve w dst) =
         file_content (snd (copy_file src dst True n w)) (resolve w dst))"
proof -
  have a: "fst (copy_file src dst True n (w\<lparr>faults := g\<rparr>)) = fst (copy_file src dst True n w)"
    using assms by (rule copy_file_chunked_faults)
  have b: "fst (copy_file src dst True n w) = None \<longrightarrow>
         file_content (snd (copy_file src dst True n (w\<lparr>faults := g\<rparr>))) (resolve w dst) =
         file_content (snd (copy_file src dst True n w)) (resolve w dst)"
  proof
    assume s: "fst (copy_file src dst True n w) = None"
    have s1: "copy_file src dst True n w = (None, snd (copy_file src dst True n w))"
      using s by (simp add: prod_eq_iff)
    have s2: "copy_file src dst True n (w\<lparr>faults := g\<rparr>)
        = (None, snd (copy_file src dst True n (w\<lparr>faults := g\<rparr>)))"
      using s a by (simp add: prod_eq_iff)
    show "file_content (snd (copy_file src dst True n (w\<lparr>faults := g\<rparr>))) (resolve w dst) =
         file_content (snd (copy_file src dst True n w)) (resolve w dst)"
      using copy_file_chunked_content [OF s1] copy_file_chunked_content [OF s2]
      by (simp add: resolve_faults file_content_faults)
  qed
  show ?thesis using a b by blast
qed

lemma demo_utime_fails:
  "os_utime (demo_world\<lparr>faults := utime_fails\<rparr>) ''/B/a.txt'' (5, 6)
     = Inl (PermissionError ''/B/n.txt'')"
  by (simp add: model_defs demo_world_def utime_fails_def)

lemma demo_copy_ok:
  "fst (copy_file ''/A/a.txt'' ''/B/n.txt'' True DEFAULT_CHUNK_SIZE demo_world) = None"
  by (simp add: model_defs demo_world_def copy_chunks.simps)

lemma demo_copy_utime_fails:
  "lookup (tree (snd (copy_file ''/A/a.txt'' ''/B/n.txt'' True DEFAULT_CHUNK_SIZE
       (demo_world\<lparr>faults := utime_fails\<rparr>)))) [''B'', ''n.txt''] = Some (File [1, 2, 3] (100, 100))"
  by (simp add: model_defs demo_world_def copy_chunks.simps utime_fails_def)

theorem copy_file_timestamps_best_effort_witness:
  "os_utime (demo_world\<lparr>faults := utime_fails\<rparr>) ''/B/a.txt'' (5, 6)
     = Inl (PermissionError ''/B/n.txt'')
   \<and> fst (copy_file ''/A/a.txt'' ''/B/n.txt'' True DEFAULT_CHUNK_SIZE
        (demo_world\<lparr>faults := utime_fails\<rparr>)) = None
   \<and> lookup (tree (snd (copy_file ''/A/a.txt'' ''/B/n.txt'' True DEFAULT_CHUNK_SIZE
       (demo_world\<lparr>faults := utime_fails\<rparr>)))) [''B'', ''n.txt''] = Some (File [1, 2, 3] (100, 100))"
proof -
  have h: "\<forall>op loc. op \<noteq> OpStat \<longrightarrow> op \<noteq> OpUtime \<longrightarrow> utime_fails op loc = faults demo_world op loc"
    by (simp add: utime_fails_def demo_world_def)
  have "fst (copy_file ''/A/a.txt'' ''/B/n.txt'' True DEFAULT_CHUNK_SIZE
          (demo_world\<lparr>faults := utime_fails\<rparr>))
        = fst (copy_file ''/A/a.txt'' ''/B/n.txt'' True DEFAULT_CHUNK_SIZE demo_world)"
    using copy_file_timestamps_best_effort [OF h, of "''/A/a.txt''" "''/B/n.txt''" DEFAULT_CHUNK_SIZE]
    by blast
  then have "fst (copy_file ''/A/a.txt'' ''/B/n.txt'' True DEFAULT_CHUNK_SIZE
          (demo_world\<lparr>faults := utime_fails\<rparr>)) = None"
    using demo_copy_ok by simp
  then show ?thesis using demo_utime_fails demo_copy_utime_fails by blast
qed

subsection \<open>Path strings and tree lookups\<close>

lemma split_sep_nonempty: "split_sep p \<noteq> []"
  by (induction p) simp_all

lemma split_sep_name: "CHR ''/'' \<notin> set f \<Longrightarrow> split_sep f = [f]"
  by (induction f) auto

lemma split_sep_append:
  "split_sep (a @ CHR ''/'' # b) = split_sep a @ split_sep b"
proof (induction a)
  case Nil
  show ?case by simp
next
  case (Cons c a)
  show ?case using Cons split_sep_nonempty [of a] by (cases "split_sep a") simp_all
qed

lemma resolve_append_name:
  assumes "d \<noteq> []" and "CHR ''/'' \<notin> set f" and "f \<noteq> []" and "f \<noteq> ''.''" and "f \<noteq> ''..''"
  shows "resolve w (d @ CHR ''/'' # f) = resolve w d @ [f]"
proof -
  have "hd (d @ CHR ''/'' # f) = hd d" using assms(1) by simp
  then show ?thesis
    using assms by (simp add: resolve_def split_sep_append split_sep_name)
qed

lemma dropWhile_to_sep:
  "CHR ''/'' \<notin> set xs \<Longrightarrow>
     dropWhile (\<lambda>c. c \<noteq> CHR ''/'') (xs @ CHR ''/'' # ys) = CHR ''/'' # ys"
  by (induction xs) auto

lemma os_path_dirname_append_name:
  assumes "d \<noteq> []" and "last d \<noteq> CHR ''/''" and "CHR ''/'' \<notin> set f"
  shows "os_path_dirname (d @ CHR ''/'' # f) = d"
proof -
  have "CHR ''/'' \<notin> set (rev f)" using assms(3) by simp
  then have a: "dropWhile (\<lambda>c. c \<noteq> CHR ''/'') (rev f @ CHR ''/'' # rev d) = CHR ''/'' # rev d"
    by (rule dropWhile_to_sep)
  have "last d \<in> set (d @ ''/'')" using assms(1) by simp
  then have b: "d @ ''/'' \<noteq> replicate (length (d @ ''/'')) CHR ''/''"
    using assms(2) by (metis in_set_replicate)
  have "hd (rev d) \<noteq> CHR ''/''" using assms(1,2) by (simp add: hd_rev)
  then have c: "dropWhile (\<lambda>c. c = CHR ''/'') (rev d) = rev d"
    using assms(1) by (cases "rev d") simp_all
  show ?thesis
    using a b c by (simp add: os_path_dirname_def Let_def)
qed

lemma lookup_append:
  "lookup t (q @ x) = (case lookup t q of None \<Rightarrow> None | Some m \<Rightarrow> lookup m x)"
  by (induction t q rule: lookup.induct) (auto split: option.splits)

lemma lookup_empty_dir: "x \<noteq> [] \<Longrightarrow> lookup (Dir []) x = None"
  by (cases x) simp_all

lemma not_blocked_iff:
  "(\<not> blocked t cs) = (\<forall>k < length cs. \<forall>d s. lookup t (take k cs) \<noteq> Some (File d s))"
  by (auto simp: blocked_def list_ex_iff split: option.splits node.splits)

subsection \<open>Creation of the parent directories\<close>

lemma mkdir_chain_creates:
  assumes "\<forall>loc. faults w OpMkdir loc = None"
    and "\<exists>es. lookup (tree w) pre = Some (Dir es)"
    and "\<forall>k < length cs. \<forall>d t. lookup (tree w) (pre @ take (Suc k) cs) \<noteq> Some (File d t)"
  shows "\<exists>w' es'. mkdir_chain p pre cs w = (None, w')
           \<and> lookup (tree w') (pre @ cs) = Some (Dir es')"
  using assms
proof (induction cs arbitrary: pre w)
  case Nil
  then show ?case by simp
next
  case (Cons c cs)
  have nf: "\<forall>d t. lookup (tree w) (pre @ [c]) \<noteq> Some (File d t)"
    using Cons.prems(3) by force
  have deeper: "\<forall>k < length cs. \<forall>d t.
      lookup (tree w) ((pre @ [c]) @ take (Suc k) cs) \<noteq> Some (File d t)"
  proof (intro allI impI)
    fix k d t
    assume "k < length cs"
    then have "Suc k < length (c # cs)" by simp
    then have "lookup (tree w) (pre @ take (Suc (Suc k)) (c # cs)) \<noteq> Some (File d t)"
      using Cons.prems(3) by blast
    then show "lookup (tree w) ((pre @ [c]) @ take (Suc k) cs) \<noteq> Some (File d t)" by simp
  qed
  show ?case
  proof (cases "lookup (tree w) (pre @ [c])")
    case None
    obtain es where es: "lookup (tree w) pre = Some (Dir es)" using Cons.prems(2) by blast
    let ?w = "w\<lparr>tree := put (tree w) (pre @ [c]) (Dir [])\<rparr>"
    have step: "mkdir_chain p pre (c # cs) w = mkdir_chain p (pre @ [c]) cs ?w"
      using None es Cons.prems(1) by simp
    have pc: "pre @ [c] \<noteq> [] \<and> (\<exists>es. lookup (tree w) (butlast (pre @ [c])) = Some (Dir es))"
      using es by simp
    have below: "\<And>x. lookup (tree ?w) ((pre @ [c]) @ x) = lookup (Dir []) x"
      using lookup_put_below [of "tree w" "pre @ [c]" "Dir []"] pc by simp
    have a: "\<forall>loc. faults ?w OpMkdir loc = None" using Cons.prems(1) by simp
    have b: "\<exists>es. lookup (tree ?w) (pre @ [c]) = Some (Dir es)"
      using below [of "[]"] by simp
    have c: "\<forall>k < length cs. \<forall>d t.
        lookup (tree ?w) ((pre @ [c]) @ take (Suc k) cs) \<noteq> Some (File d t)"
    proof (intro allI impI)
      fix k d t
      assume "k < length cs"
      then have "take (Suc k) cs \<noteq> []" by (cases cs) simp_all
      then show "lookup (tree ?w) ((pre @ [c]) @ take (Suc k) cs) \<noteq> Some (File d t)"
        using below [of "take (Suc k) cs"] by (simp add: lookup_empty_dir)
    qed
    from Cons.IH [OF a b c] show ?thesis using step by simp
  next
    case (Some m)
    then obtain es where m: "m = Dir es" using nf by (cases m) auto
    have step: "mkdir_chain p pre (c # cs) w = mkdir_chain p (pre @ [c]) cs w"
      using Some m by simp
    have b: "\<exists>es. lookup (tree w) (pre @ [c]) = Some (Dir es)" using Some m by simp
    from Cons.IH [OF Cons.prems(1) b deeper] show ?thesis using step by simp
  qed
qed

lemma mkdir_chain_exists:
  "mkdir_chain p pre cs w = (None, w') \<Longrightarrow> lookup (tree w) pre \<noteq> None
     \<Longrightarrow> lookup (tree w') (pre @ cs) \<noteq> None"
proof (induction cs arbitrary: pre w)
  case Nil
  then show ?case by simp
next
  case (Cons c cs)
  show ?case
  proof (cases "lookup (tree w) (pre @ [c])")
    case None
    have nofault: "faults w OpMkdir (pre @ [c]) = None"
      using Cons.prems(1) None by (cases "faults w OpMkdir (pre @ [c])") simp_all
    obtain es where es: "lookup (tree w) pre = Some (Dir es)"
      using Cons.prems None nofault
      by (cases "lookup (tree w) pre") (auto split: node.splits)
    let ?w = "w\<lparr>tree := put (tree w) (pre @ [c]) (Dir [])\<rparr>"
    have step: "mkdir_chain p (pre @ [c]) cs ?w = (None, w')"
      using Cons.prems(1) None nofault es by simp
    have "lookup (tree ?w) (pre @ [c]) = Some (Dir [])"
      using lookup_put_same [of "tree w" "pre @ [c]" "Dir []"] es by simp
    then have "lookup (tree ?w) (pre @ [c]) \<noteq> None" by simp
    from Cons.IH [OF step this] show ?thesis by simp
  next
    case (Some m)
    then obtain es where m: "m = Dir es" using Cons.prems(1) by (cases m) auto
    have step: "mkdir_chain p (pre @ [c]) cs w = (None, w')"
      using Cons.prems(1) Some m by simp
    have "lookup (tree w) (pre @ [c]) \<noteq> None" using Some by simp
    from Cons.IH [OF step this] show ?thesis by simp
  qed
qed

lemma mkdir_chain_fresh:
  "mkdir_chain p pre cs w = (None, w') \<Longrightarrow> \<exists>es. lookup (tree w) pre = Some (Dir es)
     \<Longrightarrow> lookup (tree w) (pre @ cs) = None
     \<Longrightarrow> lookup (tree w') (pre @ cs) = Some (Dir [])"
proof (induction cs arbitrary: pre w)
  case Nil
  then show ?case by auto
next
  case (Cons c cs)
  show ?case
  proof (cases "lookup (tree w) (pre @ [c])")
    case None
    have nofault: "faults w OpMkdir (pre @ [c]) = None"
      using Cons.prems(1) None by (cases "faults w OpMkdir (pre @ [c])") simp_all
    obtain es where es: "lookup (tree w) pre = Some (Dir es)" using Cons.prems(2) by blast
    let ?w = "w\<lparr>tree := put (tree w) (pre @ [c]) (Dir [])\<rparr>"
    have step: "mkdir_chain p (pre @ [c]) cs ?w = (None, w')"
      using Cons.prems(1) None nofault es by simp
    have pc: "pre @ [c] \<noteq> [] \<and> (\<exists>es. lookup (tree w) (butlast (pre @ [c])) = Some (Dir es))"
      using es by simp
    have below: "\<And>x. lookup (tree ?w) ((pre @ [c]) @ x) = lookup (Dir []) x"
      using lookup_put_below [of "tree w" "pre @ [c]" "Dir []"] pc by simp
    show ?thesis
    proof (cases "cs = []")
      case True
      then show ?thesis using step below [of "[]"] by simp
    next
      case False
      have b: "\<exists>es. lookup (tree ?w) (pre @ [c]) = Some (Dir es)"
        using below [of "[]"] by simp
      have c: "lookup (tree ?w) ((pre @ [c]) @ cs) = None"
        using below [of cs] False by (simp add: lookup_empty_dir)
      from Cons.IH [OF step b c] show ?thesis by simp
    qed
  next
    case (Some m)
    then obtain es where m: "m = Dir es" using Cons.prems(1) by (cases m) auto
    have step: "mkdir_chain p (pre @ [c]) cs w = (None, w')"
      using Cons.prems(1) Some m by simp
    have b: "\<exists>es. lookup (tree w) (pre @ [c]) = Some (Dir es)" using Some m by simp
    have c: "lookup (tree w) ((pre @ [c]) @ cs) = None" using Cons.prems(3) by simp
    from Cons.IH [OF step b c] show ?thesis by simp
  qed
qed

lemma os_path_exists_iff:
  "os_path_exists w p = (p \<noteq> [] \<and> lookup (tree w) (resolve w p) \<noteq> None)"
  by (auto simp: os_path_exists_def node_at_def split: option.splits)

lemma ensure_parent_dir_present:
  "os_path_dirname path = [] \<or> os_path_exists w (os_path_dirname path) \<Longrightarrow>
     ensure_parent_dir path w = (None, w)"
  by (auto simp: ensure_parent_dir_def Let_def)

lemma ensure_parent_dir_exists_after:
  assumes "ensure_parent_dir path w = (None, w1)" and "os_path_dirname path \<noteq> []"
  shows "os_path_exists w1 (os_path_dirname path)"
proof (cases "os_path_exists w (os_path_dirname path)")
  case True
  then have "w1 = w" using assms(1) ensure_parent_dir_present [of path w] by simp
  then show ?thesis using True by simp
next
  case False
  then have m: "mkdir_chain (os_path_dirname path) [] (resolve w (os_path_dirname path)) w = (None, w1)"
    using assms by (simp add: ensure_parent_dir_def Let_def os_makedirs_def)
  have "lookup (tree w) [] \<noteq> None" by simp
  from mkdir_chain_exists [OF m this]
  have "lookup (tree w1) (resolve w (os_path_dirname path)) \<noteq> None" by simp
  moreover have "cwd w1 = cwd w" using ensure_parent_dir_frame [OF assms(1)] by blast
  ultimately show ?thesis
    using assms(2) resolve_cwd [of w1 w "os_path_dirname path"] by (simp add: os_path_exists_iff)
qed

lemma ensure_parent_dir_idem:
  assumes "ensure_parent_dir path w = (None, w1)"
  shows "ensure_parent_dir path w1 = (None, w1)"
proof (cases "os_path_dirname path = []")
  case True
  then show ?thesis using ensure_parent_dir_present [of path w1] by simp
next
  case False
  then show ?thesis
    using ensure_parent_dir_exists_after [OF assms False] ensure_parent_dir_present [of path w1]
    by simp
qed

lemma ensure_parent_dir_creates:
  assumes nf: "\<forall>loc. faults w OpMkdir loc = None"
    and ne: "os_path_dirname path \<noteq> []"
    and missing: "\<not> os_path_exists w (os_path_dirname path)"
    and nb: "\<not> blocked (tree w) (resolve w (os_path_dirname path))"
  shows "\<exists>w1. ensure_parent_dir path w = (None, w1)
           \<and> lookup (tree w1) (resolve w (os_path_dirname path)) = Some (Dir [])"
proof -
  let ?cs = "resolve w (os_path_dirname path)"
  have none: "lookup (tree w) ?cs = None"
    using missing ne by (simp add: os_path_exists_iff)
  then have csne: "?cs \<noteq> []" by auto
  have pre: "\<forall>k < length ?cs. \<forall>d s. lookup (tree w) (take k ?cs) \<noteq> Some (File d s)"
    using nb by (simp add: not_blocked_iff)
  have "0 < length ?cs" using csne by simp
  then have "\<forall>d s. lookup (tree w) (take 0 ?cs) \<noteq> Some (File d s)" using pre by blast
  then have root: "\<exists>es. lookup (tree w) [] = Some (Dir es)"
    by (cases "tree w") simp_all
  have chain: "\<forall>k < length ?cs. \<forall>d t. lookup (tree w) ([] @ take (Suc k) ?cs) \<noteq> Some (File d t)"
  proof (intro allI impI)
    fix k d t
    assume k: "k < length ?cs"
    show "lookup (tree w) ([] @ take (Suc k) ?cs) \<noteq> Some (File d t)"
    proof (cases "Suc k < length ?cs")
      case True
      then have "lookup (tree w) (take (Suc k) ?cs) \<noteq> Some (File d t)" using pre by blast
      then show ?thesis by simp
    next
      case False
      then have "take (Suc k) ?cs = ?cs" using k by simp
      then show ?thesis using none by simp
    qed
  qed
  from mkdir_chain_creates [OF nf root chain, of "os_path_dirname path"]
  obtain w1 es' where m: "mkdir_chain (os_path_dirname path) [] ?cs w = (None, w1)"
    by auto
  have e: "ensure_parent_dir path w = (None, w1)"
    using m missing ne by (simp add: ensure_parent_dir_def Let_def os_makedirs_def)
  have "lookup (tree w) ([] @ ?cs) = None" using none by simp
  from mkdir_chain_fresh [OF m root this] have "lookup (tree w1) ?cs = Some (Dir [])" by simp
  then show ?thesis using e by blast
qed

lemma copy_file_chunked_creates:
  assumes d: "d \<noteq> []" "last d \<noteq> CHR ''/''"
    and f: "CHR ''/'' \<notin> set f" "f \<noteq> []" "f \<noteq> ''.''" "f \<noteq> ''..''"
    and nm: "\<forall>loc. faults w OpMkdir loc = None"
    and nw: "\<forall>loc. faults w OpOpenWrite loc = None"
    and nr: "\<forall>loc. faults w OpRead loc = None"
    and nwr: "\<forall>loc. faults w OpWrite loc = None"
    and missing: "\<not> os_path_exists w d"
    and nb: "\<not> blocked (tree w) (resolve w d)"
    and src: "open_rb w src = Inr r"
    and n: "0 < n"
  shows "\<exists>w' t. copy_file src (d @ CHR ''/'' # f) True n w = (None, w')
           \<and> lookup (tree w') (resolve w d @ [f]) = Some (File (file_content w (resolve w src)) t)"
proof -
  let ?dst = "d @ CHR ''/'' # f"
  let ?cs = "resolve w d"
  have dn: "os_path_dirname ?dst = d"
    using d f(1) by (rule os_path_dirname_append_name)
  have rs: "\<And>v. resolve v ?dst = resolve v d @ [f]"
    using d(1) f by (rule resolve_append_name)
  have "\<exists>w1. ensure_parent_dir ?dst w = (None, w1)
           \<and> lookup (tree w1) (resolve w (os_path_dirname ?dst)) = Some (Dir [])"
    using nm d(1) missing nb dn ensure_parent_dir_creates [of w ?dst] by simp
  then obtain w1 where e: "ensure_parent_dir ?dst w = (None, w1)"
    and pd: "lookup (tree w1) ?cs = Some (Dir [])"
    using dn by auto
  have cw1: "cwd w1 = cwd w" and fw1: "faults w1 = faults w"
    using ensure_parent_dir_frame [OF e] by blast+
  have r1: "\<And>p. resolve w1 p = resolve w p" using resolve_cwd [OF cw1] by simp
  note s = open_rb_Inr [OF src]
  obtain sd st where sf: "lookup (tree w) r = Some (File sd st)" using s by blast
  have sf1: "lookup (tree w1) r = Some (File sd st)"
    using ensure_parent_dir_files [OF e, of r sd st] sf by blast
  have rr: "r = resolve w src" and sne: "src \<noteq> []" and sfl: "faults w OpOpenRead r = None"
    using s by blast+
  have o1: "open_rb w1 src = Inr r"
    using sf1 rr sne sfl fw1 r1 by (simp add: open_rb_def node_at_def)
  have absent1: "lookup (tree w1) (?cs @ [f]) = None"
    using pd by (simp add: lookup_append)
  have o2: "open_wb w1 ?dst =
      Inr (?cs @ [f], w1\<lparr>tree := put (tree w1) (?cs @ [f]) (File [] (clock w1, clock w1))\<rparr>)"
    using absent1 pd nw fw1 r1 rs by (simp add: open_wb_def)
  let ?w2 = "w1\<lparr>tree := put (tree w1) (?cs @ [f]) (File [] (clock w1, clock w1))\<rparr>"
  have cc: "copy_chunks (faults ?w2 OpRead r) (faults ?w2 OpWrite (?cs @ [f])) n
      (file_content ?w2 r) [] = (None, [] @ file_content ?w2 r)"
    using nr nwr fw1 copy_chunks_positive [OF n, of "file_content ?w2 r" "[]"] by simp
  have ok: "fst (copy_file src ?dst True n w) = None"
    using e o1 o2 cc by (simp add: copy_file_def split: sum.splits)
  then have run: "copy_file src ?dst True n w = (None, snd (copy_file src ?dst True n w))"
    by (simp add: prod_eq_iff)
  have "lookup (tree w) ?cs = None"
    using missing d(1) by (simp add: os_path_exists_iff)
  then have "lookup (tree w) (?cs @ [f]) = None" by (simp add: lookup_append)
  then have ne: "resolve w src \<noteq> resolve w ?dst" using sf rr rs by auto
  from copy_file_chunked_success [OF run] ne n
  obtain t where "lookup (tree (snd (copy_file src ?dst True n w))) (resolve w ?dst) =
      Some (File (file_content w (resolve w src)) t)"
    by auto
  then show ?thesis using run rs by auto
qed

lemma copy_file_fast_creates:
  assumes d: "d \<noteq> []" "last d \<noteq> CHR ''/''"
    and f: "CHR ''/'' \<notin> set f" "f \<noteq> []" "f \<noteq> ''.''" "f \<noteq> ''..''"
    and nm: "\<forall>loc. faults w OpMkdir loc = None"
    and nw: "\<forall>loc. faults w OpOpenWrite loc = None"
    and nr: "\<forall>loc. faults w OpRead loc = None"
    and nwr: "\<forall>loc. faults w OpWrite loc = None"
    and ns: "\<forall>loc. faults w OpStat loc = None"
    and nu: "\<forall>loc. faults w OpUtime loc = None"
    and missing: "\<not> os_path_exists w d"
    and nb: "\<not> blocked (tree w) (resolve w d)"
    and src: "open_rb w src = Inr r"
  shows "\<exists>w' t. copy_file src (d @ CHR ''/'' # f) False n w = (None, w')
           \<and> lookup (tree w') (resolve w d @ [f]) = Some (File (file_content w (resolve w src)) t)"
proof -
  let ?dst = "d @ CHR ''/'' # f"
  let ?cs = "resolve w d"
  let ?h = "resolve w d @ [f]"
  have dn: "os_path_dirname ?dst = d"
    using d f(1) by (rule os_path_dirname_append_name)
  have rs: "\<And>v. resolve v ?dst = resolve v d @ [f]"
    using d(1) f by (rule resolve_append_name)
  have "\<exists>w1. ensure_parent_dir ?dst w = (None, w1)
           \<and> lookup (tree w1) (resolve w (os_path_dirname ?dst)) = Some (Dir [])"
    using nm d(1) missing nb dn ensure_parent_dir_creates [of w ?dst] by simp
  then obtain w1 where e: "ensure_parent_dir ?dst w = (None, w1)"
    and pd: "lookup (tree w1) ?cs = Some (Dir [])"
    using dn by auto
  have cw1: "cwd w1 = cwd w" and fw1: "faults w1 = faults w"
    using ensure_parent_dir_frame [OF e] by blast+
  have r1: "\<And>p. resolve w1 p = resolve w p" using resolve_cwd [OF cw1] by simp
  note s = open_rb_Inr [OF src]
  obtain sd st where sf: "lookup (tree w) r = Some (File sd st)" using s by blast
  have sf1: "lookup (tree w1) r = Some (File sd st)"
    using ensure_parent_dir_files [OF e, of r sd st] sf by blast
  have rr: "r = resolve w src" and sne: "src \<noteq> []" and sfl: "faults w OpOpenRead r = None"
    using s by blast+
  have o1: "open_rb w1 src = Inr r"
    using sf1 rr sne sfl fw1 r1 by (simp add: open_rb_def node_at_def)
  have absent1: "lookup (tree w1) ?h = None"
    using pd by (simp add: lookup_append)
  have rne: "r \<noteq> ?h" using sf1 absent1 by auto
  have nodir: "\<not> os_path_isdir w1 ?dst"
    using absent1 r1 rs by (simp add: os_path_isdir_def node_at_def)
  have nosame: "\<not> samefile w1 src ?dst"
    using absent1 r1 rs by (simp add: samefile_def os_path_exists_iff)
  let ?w2 = "w1\<lparr>tree := put (tree w1) ?h (File [] (clock w1, clock w1))\<rparr>"
  have o2: "open_wb w1 ?dst = Inr (?h, ?w2)"
    using absent1 pd nw fw1 r1 rs by (simp add: open_wb_def)
  have h2: "lookup (tree ?w2) ?h = Some (File [] (clock w1, clock w1))"
    using lookup_put_same [of "tree w1" ?h "File [] (clock w1, clock w1)"] pd by simp
  have s2: "lookup (tree ?w2) r = Some (File sd st)"
    using lookup_put_file_kept [OF sf1 rne, of "File [] (clock w1, clock w1)"] absent1 by simp
  have fc2: "file_content ?w2 r = sd" using s2 by (rule file_content_lookup)
  have pos: "0 < COPY_BUFSIZE" by (simp add: COPY_BUFSIZE_def)
  have cc: "copy_chunks (faults ?w2 OpRead r) (faults ?w2 OpWrite ?h) COPY_BUFSIZE
      (file_content ?w2 r) [] = (None, sd)"
    using nr nwr fw1 fc2 copy_chunks_positive [OF pos, of sd "[]"] by simp
  let ?w3 = "write_content ?w2 ?h sd"
  have fr3: "cwd ?w3 = cwd w \<and> faults ?w3 = faults w"
    using write_content_frame [of ?w2 ?h sd] cw1 fw1 by simp
  have r3: "\<And>p. resolve ?w3 p = resolve w p" using resolve_cwd [of ?w3 w] fr3 by simp
  have h2n: "lookup (tree ?w2) ?h \<noteq> None" using h2 by simp
  obtain t3 where h3: "lookup (tree ?w3) ?h = Some (File sd t3)"
    using write_content_at [OF h2n, of sd] by blast
  have "\<forall>es. lookup (tree ?w2) ?h \<noteq> Some (Dir es)" using h2 by simp
  then have s3: "lookup (tree ?w3) r = Some (File sd st)"
    using lookup_put_file_kept [OF s2 rne] by (simp add: write_content_def)
  have st3: "os_stat ?w3 src = Inr (File sd st)"
    using s3 ns fr3 r3 rr sne by (simp add: os_stat_def node_at_def)
  let ?w4 = "?w3\<lparr>tree := put (tree ?w3) ?h (File sd st)\<rparr>"
  have dne: "?dst \<noteq> []" by simp
  have ut: "os_utime ?w3 ?dst st = Inr ?w4"
    using h3 nu fr3 r3 rs dne by (simp add: os_utime_def node_at_def)
  have h3n: "lookup (tree ?w3) ?h \<noteq> None" using h3 by simp
  have h4: "lookup (tree ?w4) ?h = Some (File sd st)"
    using lookup_put_same [of "tree ?w3" ?h "File sd st"] h3n by simp
  have res: "copy_file src ?dst False n w = (None, ?w4)"
    using e nodir nosame o1 o2 cc st3 ut
    by (simp add: copy_file_def shutil_copy2_def Let_def)
  have "file_content w (resolve w src) = sd"
    using sf rr file_content_lookup [of w r sd st] by simp
  then show ?thesis using res h4 by blast
qed

lemma copy_file_parent_error:
  "ensure_parent_dir dst w = (Some e, w1) \<Longrightarrow> copy_file src dst chunked n w = (Some e, w1)"
  by (simp add: copy_file_def)

text \<open>
  Claim C7. \<^verbatim>\<open>copy_file\<close> calls \<^verbatim>\<open>ensure_parent_dir\<close> before it opens any file, and
  raises what that call raises. \<^verbatim>\<open>ensure_parent_dir\<close> does nothing and does not fail when
  the parent of the destination is already present (or the destination has no directory
  part); it is idempotent; when the parent is missing, no component of the chain is a
  regular file and no \<^verbatim>\<open>mkdir\<close> fails, it creates the chain and the parent is a directory
  afterwards (the parent path is taken without \<^verbatim>\<open>..\<close> components, for which the
  lexical resolution of paths in the model is that of the operating system). A copy, in either mode, of a readable source file to a destination
  \<^verbatim>\<open>d/f\<close> whose parent \<^verbatim>\<open>d\<close> does not yet exist (\<^verbatim>\<open>f\<close> a file name, no operation failing
  for a reason outside the tree, a positive chunk size in chunked mode) returns normally
  and leaves the source's content at the destination.
\<close>

theorem copy_file_ensures_parent_dir:
  "(ensure_parent_dir dst w = (Some e, w1) \<longrightarrow> copy_file src dst chunked n w = (Some e, w1))
   \<and> (os_path_dirname dst = [] \<or> os_path_exists w (os_path_dirname dst) \<longrightarrow>
        ensure_parent_dir dst w = (None, w))
   \<and> (ensure_parent_dir dst w = (None, w1) \<longrightarrow>
        ensure_parent_dir dst w1 = (None, w1)
        \<and> (os_path_dirname dst \<noteq> [] \<longrightarrow> os_path_exists w1 (os_path_dirname dst)))
   \<and> ((\<forall>loc. faults w OpMkdir loc = None) \<and> os_path_dirname dst \<noteq> []
        \<and> ''..'' \<notin> set (split_sep (os_path_dirname dst))
        \<and> \<not> os_path_exists w (os_path_dirname dst)
        \<and> \<not> blocked (tree w) (resolve w (os_path_dirname dst)) \<longrightarrow>
        (\<exists>w2. ensure_parent_dir dst w = (None, w2)
           \<and> lookup (tree w2) (resolve w (os_path_dirname dst)) = Some (Dir [])))
   \<and> (d \<noteq> [] \<and> last d \<noteq> CHR ''/'' \<and> CHR ''/'' \<notin> set f \<and> f \<noteq> [] \<and> f \<noteq> ''.'' \<and> f \<noteq> ''..''
        \<and> ''..'' \<notin> set (split_sep d)
        \<and> (\<forall>op loc. (chunked \<longrightarrow> op \<noteq> OpStat \<and> op \<noteq> OpUtime) \<longrightarrow> faults w op loc = None)
        \<and> \<not> os_path_exists w d \<and> \<not> blocked (tree w) (resolve w d)
        \<and> open_rb w src = Inr r \<and> (chunked \<longrightarrow> 0 < n) \<longrightarrow>
        os_path_dirname (d @ CHR ''/'' # f) = d
        \<and> (\<exists>w' t. copy_file src (d @ CHR ''/'' # f) chunked n w = (None, w')
              \<and> lookup (tree w') (resolve w d @ [f]) = Some (File (file_content w (resolve w src)) t)))"
proof -
  have a: "ensure_parent_dir dst w = (Some e, w1) \<longrightarrow> copy_file src dst chunked n w = (Some e, w1)"
    using copy_file_parent_error by blast
  have b: "os_path_dirname dst = [] \<or> os_path_exists w (os_path_dirname dst) \<longrightarrow>
        ensure_parent_dir dst w = (None, w)"
    using ensure_parent_dir_present by blast
  have c: "ensure_parent_dir dst w = (None, w1) \<longrightarrow>
        ensure_parent_dir dst w1 = (None, w1)
        \<and> (os_path_dirname dst \<noteq> [] \<longrightarrow> os_path_exists w1 (os_path_dirname dst))"
    using ensure_parent_dir_idem ensure_parent_dir_exists_after by blast
  have d: "(\<forall>loc. faults w OpMkdir loc = None) \<and> os_path_dirname dst \<noteq> []
        \<and> ''..'' \<notin> set (split_sep (os_path_dirname dst))
        \<and> \<not> os_path_exists w (os_path_dirname dst)
        \<and> \<not> blocked (tree w) (resolve w (os_path_dirname dst)) \<longrightarrow>
        (\<exists>w2. ensure_parent_dir dst w = (None, w2)
           \<and> lookup (tree w2) (resolve w (os_path_dirname dst)) = Some (Dir []))"
    using ensure_parent_dir_creates [of w dst] by blast
  have e: "d \<noteq> [] \<and> last d \<noteq> CHR ''/'' \<and> CHR ''/'' \<notin> set f \<and> f \<noteq> [] \<and> f \<noteq> ''.'' \<and> f \<noteq> ''..''
        \<and> ''..'' \<notin> set (split_sep d)
        \<and> (\<forall>op loc. (chunked \<longrightarrow> op \<noteq> OpStat \<and> op \<noteq> OpUtime) \<longrightarrow> faults w op loc = None)
        \<and> \<not> os_path_exists w d \<and> \<not> blocked (tree w) (resolve w d)
        \<and> open_rb w src = Inr r \<and> (chunked \<longrightarrow> 0 < n) \<longrightarrow>
        os_path_dirname (d @ CHR ''/'' # f) = d
        \<and> (\<exists>w' t. copy_file src (d @ CHR ''/'' # f) chunked n w = (None, w')
              \<and> lookup (tree w') (resolve w d @ [f]) = Some (File (file_content w (resolve w src)) t))"
  proof
    assume h: "d \<noteq> [] \<and> last d \<noteq> CHR ''/'' \<and> CHR ''/'' \<notin> set f \<and> f \<noteq> [] \<and> f \<noteq> ''.'' \<and> f \<noteq> ''..''
        \<and> ''..'' \<notin> set (split_sep d)
        \<and> (\<forall>op loc. (chunked \<longrightarrow> op \<noteq> OpStat \<and> op \<noteq> OpUtime) \<longrightarrow> faults w op loc = None)
        \<and> \<not> os_path_exists w d \<and> \<not> blocked (tree w) (resolve w d)
        \<and> open_rb w src = Inr r \<and> (chunked \<longrightarrow> 0 < n)"
    then have d1: "d \<noteq> []" and d2: "last d \<noteq> CHR ''/''" and f1: "CHR ''/'' \<notin> set f"
      and f2: "f \<noteq> []" and f3: "f \<noteq> ''.''" and f4: "f \<noteq> ''..''"
      and fl: "\<forall>op loc. (chunked \<longrightarrow> op \<noteq> OpStat \<and> op \<noteq> OpUtime) \<longrightarrow> faults w op loc = None"
      and mi: "\<not> os_path_exists w d" and nb: "\<not> blocked (tree w) (resolve w d)"
      and sr: "open_rb w src = Inr r" and np: "chunked \<longrightarrow> 0 < n"
      by blast+
    have nm: "\<forall>loc. faults w OpMkdir loc = None" using fl by simp
    have nw: "\<forall>loc. faults w OpOpenWrite loc = None" using fl by simp
    have nr: "\<forall>loc. faults w OpRead loc = None" using fl by simp
    have nwr: "\<forall>loc. faults w OpWrite loc = None" using fl by simp
    have dn: "os_path_dirname (d @ CHR ''/'' # f) = d"
      using d1 d2 f1 by (rule os_path_dirname_append_name)
    have "\<exists>w' t. copy_file src (d @ CHR ''/'' # f) chunked n w = (None, w')
              \<and> lookup (tree w') (resolve w d @ [f]) = Some (File (file_content w (resolve w src)) t)"
    proof (cases chunked)
      case True
      then have "0 < n" using np by simp
      from copy_file_chunked_creates [OF d1 d2 f1 f2 f3 f4 nm nw nr nwr mi nb sr this]
      show ?thesis using True by simp
    next
      case False
      then have ns: "\<forall>loc. faults w OpStat loc = None" and nu: "\<forall>loc. faults w OpUtime loc = None"
        using fl by simp_all
      from copy_file_fast_creates [OF d1 d2 f1 f2 f3 f4 nm nw nr nwr ns nu mi nb sr, of n]
      show ?thesis using False by simp
    qed
    then show "os_path_dirname (d @ CHR ''/'' # f) = d
        \<and> (\<exists>w' t. copy_file src (d @ CHR ''/'' # f) chunked n w = (None, w')
              \<and> lookup (tree w') (resolve w d @ [f]) = Some (File (file_content w (resolve w src)) t))"
      using dn by blast
  qed
  show ?thesis using a b c d e by blast
qed

lemma demo_deep:
  "\<not> os_path_exists demo_world ''/B/new/deep''
   \<and> \<not> blocked (tree demo_world) (resolve demo_world ''/B/new/deep'')
   \<and> open_rb demo_world ''/A/a.txt'' = Inr [''A'', ''a.txt'']
   \<and> resolve demo_world ''/B/new/deep'' = [''B'', ''new'', ''deep'']
   \<and> file_content demo_world (resolve demo_world ''/A/a.txt'') = [1, 2, 3]
   \<and> lookup (tree demo_world) [''B'', ''new''] = None
   \<and> os_path_exists demo_world (os_path_dirname ''/B/a.txt'')
   \<and> 0 < DEFAULT_CHUNK_SIZE"
  by (simp add: model_defs demo_world_def)

theorem copy_file_ensures_parent_dir_witness:
  "lookup (tree demo_world) [''B'', ''new''] = None
   \<and> fst (copy_file ''/A/a.txt'' ''/B/new/deep/n.txt'' True DEFAULT_CHUNK_SIZE demo_world) = None
   \<and> file_content (snd (copy_file ''/A/a.txt'' ''/B/new/deep/n.txt'' True DEFAULT_CHUNK_SIZE demo_world))
        [''B'', ''new'', ''deep'', ''n.txt''] = [1, 2, 3]
   \<and> fst (copy_file ''/A/a.txt'' ''/B/new/deep/n.txt'' False DEFAULT_CHUNK_SIZE demo_world) = None
   \<and> file_content (snd (copy_file ''/A/a.txt'' ''/B/new/deep/n.txt'' False DEFAULT_CHUNK_SIZE demo_world))
        [''B'', ''new'', ''deep'', ''n.txt''] = [1, 2, 3]
   \<and> ensure_parent_dir ''/B/a.txt'' demo_world = (None, demo_world)"
proof -
  have fl: "\<forall>op loc. faults demo_world op loc = None" by (simp add: demo_world_def)
  have sh: "''/B/new/deep'' \<noteq> [] \<and> last ''/B/new/deep'' \<noteq> CHR ''/''
      \<and> CHR ''/'' \<notin> set ''n.txt'' \<and> ''n.txt'' \<noteq> [] \<and> ''n.txt'' \<noteq> ''.'' \<and> ''n.txt'' \<noteq> ''..''
      \<and> ''..'' \<notin> set (split_sep ''/B/new/deep'')"
    by simp
  have t: "\<exists>w' t. copy_file ''/A/a.txt'' (''/B/new/deep'' @ CHR ''/'' # ''n.txt'') True
                DEFAULT_CHUNK_SIZE demo_world = (None, w')
              \<and> lookup (tree w') (resolve demo_world ''/B/new/deep'' @ [''n.txt''])
                  = Some (File (file_content demo_world (resolve demo_world ''/A/a.txt'')) t)"
    using copy_file_ensures_parent_dir [of "''/B/a.txt''" demo_world _ _ "''/A/a.txt''" True
        DEFAULT_CHUNK_SIZE "''/B/new/deep''" "''n.txt''" "[''A'', ''a.txt'']"] fl sh demo_deep
    by blast
  have u: "\<exists>w' t. copy_file ''/A/a.txt'' (''/B/new/deep'' @ CHR ''/'' # ''n.txt'') False
                DEFAULT_CHUNK_SIZE demo_world = (None, w')
              \<and> lookup (tree w') (resolve demo_world ''/B/new/deep'' @ [''n.txt''])
                  = Some (File (file_content demo_world (resolve demo_world ''/A/a.txt'')) t)"
    using copy_file_ensures_parent_dir [of "''/B/a.txt''" demo_world _ _ "''/A/a.txt''" False
        DEFAULT_CHUNK_SIZE "''/B/new/deep''" "''n.txt''" "[''A'', ''a.txt'']"] fl sh demo_deep
    by blast
  have p: "ensure_parent_dir ''/B/a.txt'' demo_world = (None, demo_world)"
    using copy_file_ensures_parent_dir [of "''/B/a.txt''" demo_world] demo_deep by blast
  have t': "fst (copy_file ''/A/a.txt'' ''/B/new/deep/n.txt'' True DEFAULT_CHUNK_SIZE demo_world) = None
   \<and> file_content (snd (copy_file ''/A/a.txt'' ''/B/new/deep/n.txt'' True DEFAULT_CHUNK_SIZE demo_world))
        [''B'', ''new'', ''deep'', ''n.txt''] = [1, 2, 3]"
    using t demo_deep by (auto simp: file_content_lookup)
  have u': "fst (copy_file ''/A/a.txt'' ''/B/new/deep/n.txt'' False DEFAULT_CHUNK_SIZE demo_world) = None
   \<and> file_content (snd (copy_file ''/A/a.txt'' ''/B/new/deep/n.txt'' False DEFAULT_CHUNK_SIZE demo_world))
        [''B'', ''new'', ''deep'', ''n.txt''] = [1, 2, 3]"
    using u demo_deep by (auto simp: file_content_lookup)
  show ?thesis using t' u' p demo_deep by blast
qed

subsection \<open>Indexing and comparison\<close>


























end
